theory Spec2Isabelle
  imports Complex_Main
begin

section \<open>Python and library primitives used by \<open>obspack_fill.py\<close>\<close>

text \<open>
  The module has one function, \<open>make_ObsPack_Input_netcdfs\<close>. It calls the Python
  standard library (\<open>datetime\<close>, \<open>str\<close> methods), pandas (\<open>date_range\<close>,
  \<open>strftime\<close>), numpy (\<open>arange\<close>, \<open>full\<close>, \<open>chararray\<close>) and xarray
  (\<open>Dataset\<close>, \<open>to_netcdf\<close>). The library calls are modelled here by what they compute
  on the values this function hands them.

  Conventions of the model:
  \<^item> Python integers are \<open>int\<close>; Python strings are \<open>string\<close>, one \<open>char\<close> per
    character: the site name and the dates are taken to be ASCII, as the one-byte cells
    of the \<open>chararray\<close> require.
  \<^item> A point in time (a \<open>datetime\<close> or a pandas \<open>Timestamp\<close>) is the number of whole
    seconds since 0001-01-01 00:00:00 of the proleptic Gregorian calendar; every time
    this function handles is a whole second. The 64-bit nanosecond range of pandas
    timestamps (years 1677 to 2262) is not part of the model: times are unbounded.
  \<^item> A \<open>timedelta\<close> is a number of seconds; \<open>.days\<close> and \<open>.seconds\<close> are its floor
    quotient and remainder by 86400, as Python normalises them.
  \<^item> An exception is a value of type \<open>error\<close>; a call that can raise returns
    \<open>error + 'a\<close>.
  \<^item> \<open>to_netcdf\<close> is taken to succeed: the disk is the list of the files written, each
    a path with the dataset it was given.
\<close>

datatype error =
    ValueError_strptime    \<comment> \<open>\<open>strptime\<close>: the string does not match the format\<close>
  | IndexError             \<comment> \<open>\<open>ends2Use[-1]\<close> on an empty series\<close>
  | ZeroDivisionError      \<comment> \<open>\<open>date_range\<close> with a stride of zero\<close>
  | ValueError_broadcast   \<comment> \<open>a row of more than 200 characters assigned to \<open>ids[count, :]\<close>\<close>

subsection \<open>Decimal strings\<close>

definition digit_char :: "nat \<Rightarrow> char" where
  "digit_char d = ''0123456789'' ! d"

definition digit_val :: "char \<Rightarrow> nat" where
  "digit_val c = of_char c - 48"

definition is_digit :: "char \<Rightarrow> bool" where
  "is_digit c = (48 \<le> (of_char c :: nat) \<and> (of_char c :: nat) \<le> 57)"

text \<open>\<open>str(n)\<close> for a non-negative integer.\<close>

fun str_nat :: "nat \<Rightarrow> string" where
  "str_nat n = (if n < 10 then [digit_char n] else str_nat (n div 10) @ [digit_char (n mod 10)])"

declare str_nat.simps [simp del]

text \<open>\<open>str(i)\<close> for any integer.\<close>

definition str_int :: "int \<Rightarrow> string" where
  "str_int i = (if i < 0 then CHR ''-'' # str_nat (nat (- i)) else str_nat (nat i))"

text \<open>
  \<open>.astype(int)\<close> on a column of strings, applied to one string. It is only ever applied
  to the output of \<open>strftime\<close>, a string of decimal digits.
\<close>

definition astype_int :: "string \<Rightarrow> int" where
  "astype_int s = int (foldl (\<lambda>a c. 10 * a + digit_val c) 0 s)"

text \<open>\<open>s.ljust(width, fill)\<close>: pads on the right, and returns \<open>s\<close> unchanged when it is
  already \<open>width\<close> long or longer.\<close>

definition ljust :: "nat \<Rightarrow> char \<Rightarrow> string \<Rightarrow> string" where
  "ljust width fillchar s = s @ replicate (width - length s) fillchar"

text \<open>Zero padding on the left, as \<open>strftime\<close> pads its numeric fields.\<close>

definition zfill :: "nat \<Rightarrow> string \<Rightarrow> string" where
  "zfill width s = replicate (width - length s) CHR ''0'' @ s"

text \<open>\<open>s.split(' ')[0]\<close>: the part of \<open>s\<close> before its first space, all of \<open>s\<close> when it has
  none.\<close>

definition split_first :: "string \<Rightarrow> string" where
  "split_first s = takeWhile (\<lambda>c. c \<noteq> CHR '' '') s"

text \<open>\<open>xs[:k]\<close>: a negative \<open>k\<close> counts from the end.\<close>

definition slice_to :: "int \<Rightarrow> 'a list \<Rightarrow> 'a list" where
  "slice_to k xs = (if 0 \<le> k then take (nat k) xs else take (nat (int (length xs) + k)) xs)"

subsection \<open>The proleptic Gregorian calendar\<close>

text \<open>
  The calendar arithmetic is that of Python's \<open>datetime\<close> module: days are counted by
  their ordinal, with 0001-01-01 as day 1.
\<close>

definition is_leap :: "int \<Rightarrow> bool" where
  "is_leap year = (year mod 4 = 0 \<and> (year mod 100 \<noteq> 0 \<or> year mod 400 = 0))"

definition days_before_year :: "int \<Rightarrow> int" where
  "days_before_year year = (let y = year - 1 in y * 365 + y div 4 - y div 100 + y div 400)"

definition DAYS_IN_MONTH :: "int list" where
  "DAYS_IN_MONTH = [-1, 31, 28, 31, 30, 31, 30, 31, 31, 30, 31, 30, 31]"

definition DAYS_BEFORE_MONTH :: "int list" where
  "DAYS_BEFORE_MONTH = [-1, 0, 31, 59, 90, 120, 151, 181, 212, 243, 273, 304, 334]"

definition days_in_month :: "int \<Rightarrow> int \<Rightarrow> int" where
  "days_in_month year month =
     (if month = 2 \<and> is_leap year then 29 else DAYS_IN_MONTH ! nat month)"

definition days_before_month :: "int \<Rightarrow> int \<Rightarrow> int" where
  "days_before_month year month =
     DAYS_BEFORE_MONTH ! nat month + (if month > 2 \<and> is_leap year then 1 else 0)"

definition ymd2ord :: "int \<Rightarrow> int \<Rightarrow> int \<Rightarrow> int" where
  "ymd2ord year month day = days_before_year year + days_before_month year month + day"

text \<open>Ordinal to (year, month, day): 400-, 100-, 4- and 1-year cycles, then the month.\<close>

definition ord2ymd :: "int \<Rightarrow> int \<times> int \<times> int" where
  "ord2ymd ordinal =
     (let n = ordinal - 1;
          n400 = n div 146097; n = n mod 146097;
          n100 = n div 36524; n = n mod 36524;
          n4 = n div 1461; n = n mod 1461;
          n1 = n div 365; n = n mod 365;
          year = n400 * 400 + 1 + n100 * 100 + n4 * 4 + n1
      in if n1 = 4 \<or> n100 = 4 then (year - 1, 12, 31)
         else
           let leapyear = (n1 = 3 \<and> (n4 \<noteq> 24 \<or> n100 = 3));
               month = (n + 50) div 32;
               preceding = DAYS_BEFORE_MONTH ! nat month + (if month > 2 \<and> leapyear then 1 else 0)
           in if preceding > n
              then let month = month - 1;
                       preceding = preceding
                         - (DAYS_IN_MONTH ! nat month + (if month = 2 \<and> leapyear then 1 else 0))
                   in (year, month, n - preceding + 1)
              else (year, month, n - preceding + 1))"

subsection \<open>Points in time\<close>

type_synonym instant = int

definition to_instant :: "int \<Rightarrow> int \<Rightarrow> int \<Rightarrow> int \<Rightarrow> int \<Rightarrow> int \<Rightarrow> instant" where
  "to_instant year month day hour minute second =
     (ymd2ord year month day - 1) * 86400 + hour * 3600 + minute * 60 + second"

text \<open>The \<open>datetime\<close> constructor: it refuses a field out of range.\<close>

definition datetime :: "int \<Rightarrow> int \<Rightarrow> int \<Rightarrow> int \<Rightarrow> int \<Rightarrow> int \<Rightarrow> instant option" where
  "datetime year month day hour minute second =
     (if 1 \<le> year \<and> year \<le> 9999 \<and> 1 \<le> month \<and> month \<le> 12
         \<and> 1 \<le> day \<and> day \<le> days_in_month year month
         \<and> 0 \<le> hour \<and> hour \<le> 23 \<and> 0 \<le> minute \<and> minute \<le> 59
         \<and> 0 \<le> second \<and> second \<le> 59
      then Some (to_instant year month day hour minute second)
      else None)"

definition year_of :: "instant \<Rightarrow> int" where
  "year_of t = fst (ord2ymd (t div 86400 + 1))"

definition month_of :: "instant \<Rightarrow> int" where
  "month_of t = fst (snd (ord2ymd (t div 86400 + 1)))"

definition day_of :: "instant \<Rightarrow> int" where
  "day_of t = snd (snd (ord2ymd (t div 86400 + 1)))"

definition hour_of :: "instant \<Rightarrow> int" where
  "hour_of t = t mod 86400 div 3600"

definition minute_of :: "instant \<Rightarrow> int" where
  "minute_of t = t mod 3600 div 60"

definition second_of :: "instant \<Rightarrow> int" where
  "second_of t = t mod 60"

text \<open>
  \<open>strftime\<close> with one directive: \<open>%Y\<close> is the year on four digits, the others are on two.
\<close>

definition strftime_Y :: "instant \<Rightarrow> string" where
  "strftime_Y t = zfill 4 (str_nat (nat (year_of t)))"

definition strftime_m :: "instant \<Rightarrow> string" where
  "strftime_m t = zfill 2 (str_nat (nat (month_of t)))"

definition strftime_d :: "instant \<Rightarrow> string" where
  "strftime_d t = zfill 2 (str_nat (nat (day_of t)))"

definition strftime_H :: "instant \<Rightarrow> string" where
  "strftime_H t = zfill 2 (str_nat (nat (hour_of t)))"

definition strftime_M :: "instant \<Rightarrow> string" where
  "strftime_M t = zfill 2 (str_nat (nat (minute_of t)))"

definition strftime_S :: "instant \<Rightarrow> string" where
  "strftime_S t = zfill 2 (str_nat (nat (second_of t)))"

text \<open>\<open>str(t)\<close> of a timestamp: \<open>YYYY-MM-DD HH:MM:SS\<close>.\<close>

definition str_Timestamp :: "instant \<Rightarrow> string" where
  "str_Timestamp t =
     strftime_Y t @ ''-'' @ strftime_m t @ ''-'' @ strftime_d t @ '' '' @
     strftime_H t @ '':'' @ strftime_M t @ '':'' @ strftime_S t"

text \<open>
  \<open>datetime.strptime(s, '%Y%m%d %H:%M:%S')\<close> on the form the docstring gives,
  \<open>YYYYMMDD HH:MM:SS\<close> with every field zero-padded: seventeen characters. Any other
  string is a \<open>ValueError\<close> here; the shorter spellings \<open>strptime\<close> also reads (a field
  of one digit) are outside the model. \<open>date_range\<close> reads the same two strings again,
  to the same times.
\<close>

definition strptime :: "string \<Rightarrow> error + instant" where
  "strptime s =
     (if length s = 17 \<and> list_all is_digit (take 8 s) \<and> s ! 8 = CHR '' ''
         \<and> list_all is_digit (take 2 (drop 9 s)) \<and> s ! 11 = CHR '':''
         \<and> list_all is_digit (take 2 (drop 12 s)) \<and> s ! 14 = CHR '':''
         \<and> list_all is_digit (take 2 (drop 15 s))
      then case datetime (astype_int (take 4 s)) (astype_int (take 2 (drop 4 s)))
                  (astype_int (take 2 (drop 6 s))) (astype_int (take 2 (drop 9 s)))
                  (astype_int (take 2 (drop 12 s))) (astype_int (take 2 (drop 15 s))) of
             None \<Rightarrow> Inl ValueError_strptime
           | Some t \<Rightarrow> Inr t
      else Inl ValueError_strptime)"

subsection \<open>Ranges of times\<close>

text \<open>\<open>np.arange(start, stop, step)\<close> on integers, \<open>step\<close> not zero: the values
  \<open>start + i * step\<close> for \<open>i\<close> below the ceiling of \<open>(stop - start) / step\<close>.\<close>

definition np_arange :: "int \<Rightarrow> int \<Rightarrow> int \<Rightarrow> int list" where
  "np_arange start stop step =
     map (\<lambda>i. start + int i * step) [0..<nat (- ((start - stop) div step))]"

text \<open>
  \<open>pd.date_range(start, end, freq)\<close> for a frequency that is a fixed number of seconds
  (\<open>'1D'\<close> is 86400 of them, \<open>str(samplefreq) + 's'\<close> is \<open>samplefreq\<close>). pandas computes
  on nanoseconds: with \<open>b\<close> and \<open>iend\<close> the two ends and \<open>stride\<close> the frequency, it
  returns \<open>np.arange(b, e, stride)\<close> for
  \<open>e = b + (iend - b) // stride * stride + stride // 2 + 1\<close>. The floor division by a
  stride of zero raises.
\<close>

definition date_range :: "instant \<Rightarrow> instant \<Rightarrow> int \<Rightarrow> error + instant list" where
  "date_range start endd freq =
     (let b = start * 1000000000; iend = endd * 1000000000; stride = freq * 1000000000
      in if stride = 0 then Inl ZeroDivisionError
         else let e = b + (iend - b) div stride * stride + stride div 2 + 1
              in Inr (map (\<lambda>v. v div 1000000000) (np_arange b e stride)))"

section \<open>The generator\<close>

subsection \<open>Day segments (lines 73 to 87)\<close>

definition timedelta_days :: "int \<Rightarrow> int" where
  "timedelta_days delta = delta div 86400"

definition timedelta_seconds :: "int \<Rightarrow> int" where
  "timedelta_seconds delta = delta mod 86400"

text \<open>The number of files: the days of the window, one more when time is left over.\<close>

definition day_count :: "instant \<Rightarrow> instant \<Rightarrow> int" where
  "day_count start endd =
     (let delta = endd - start
      in if timedelta_seconds delta \<noteq> 0 then timedelta_days delta + 1
         else timedelta_days delta)"

text \<open>
  The segments, as the pairs \<open>(starts2Use[t], ends2Use[t])\<close> the loop reads. Reading
  \<open>ends2Use[-1]\<close> raises when the series is empty.
\<close>

definition day_segments :: "instant \<Rightarrow> instant \<Rightarrow> error + (instant \<times> instant) list" where
  "day_segments start endd =
     (case date_range start endd 86400 of
        Inl err \<Rightarrow> Inl err
      | Inr starts \<Rightarrow>
          let starts2Use = slice_to (day_count start endd) starts;
              ends2Use = map (\<lambda>s. s + 86400 - 1) starts2Use
          in if ends2Use = [] then Inl IndexError
             else Inr (zip starts2Use
                         (if last ends2Use > endd
                          then ends2Use[length ends2Use - 1 := endd]
                          else ends2Use)))"

subsection \<open>One dataset (lines 95 to 200)\<close>

text \<open>
  The six variables of a dataset, each a list along the \<open>obs\<close> dimension. The three
  coordinates are 32-bit floats of type \<open>'f\<close>; \<open>time_components\<close> has one row of six
  integers per observation and \<open>obspack_id\<close> one row of characters. The attributes of
  the variables (units, fill values, long names) are the same constants in every file
  and are left out.
\<close>

record 'f dataset =
  latitude :: "'f list"
  longitude :: "'f list"
  altitude :: "'f list"
  time_components :: "int list list"
  obspack_id :: "string list"
  CT_sampling_strategy :: "int list"

definition time_row :: "instant \<Rightarrow> int list" where
  "time_row t =
     [astype_int (strftime_Y t), astype_int (strftime_m t), astype_int (strftime_d t),
      astype_int (strftime_H t), astype_int (strftime_M t), astype_int (strftime_S t)]"

definition id_prefix :: "string \<Rightarrow> string \<Rightarrow> string \<Rightarrow> string" where
  "id_prefix sitename datestart dateend =
     sitename @ ''_from_'' @ split_first datestart @ ''_to_'' @ split_first dateend @ ''_n''"

text \<open>
  The loop over the observation numbers: each row is the padded string, and a row that
  is not 200 characters long cannot be assigned to the 200 columns of \<open>ids\<close>.
\<close>

fun fill_ids :: "string \<Rightarrow> string list \<Rightarrow> error + string list" where
  "fill_ids prefix [] = Inr []"
| "fill_ids prefix (stri # n) =
     (let indv_row = ljust 200 CHR ''_'' (prefix @ stri)
      in if length indv_row \<noteq> 200 then Inl ValueError_broadcast
         else (case fill_ids prefix n of
                 Inl err \<Rightarrow> Inl err
               | Inr rows \<Rightarrow> Inr (indv_row # rows)))"

text \<open>
  \<open>float32\<close> is the conversion \<open>np.full(..., dtype=np.float32)\<close> applies to the Python
  number it is given; the model takes it as a parameter.
\<close>

definition make_dataset ::
  "('a \<Rightarrow> 'f) \<Rightarrow> string \<Rightarrow> 'a \<Rightarrow> 'a \<Rightarrow> string \<Rightarrow> string \<Rightarrow> int \<Rightarrow> int
     \<Rightarrow> instant \<Rightarrow> instant \<Rightarrow> error + 'f dataset" where
  "make_dataset float32 sitename lat lon datestart dateend samplefreq sample_stragety
       seg_start seg_end =
     (case date_range seg_start seg_end samplefreq of
        Inl err \<Rightarrow> Inl err
      | Inr dts \<Rightarrow>
          let n = map str_nat [0..<length dts];
              prefix = id_prefix sitename datestart dateend
          in (case fill_ids prefix n of
                Inl err \<Rightarrow> Inl err
              | Inr ids \<Rightarrow>
                  Inr \<lparr> latitude = replicate (length dts) (float32 lat),
                        longitude = replicate (length dts) (float32 lon),
                        altitude = replicate (length dts) (float32 lon),
                        time_components = map time_row dts,
                        obspack_id = ids,
                        CT_sampling_strategy = replicate (length dts) sample_stragety \<rparr>))"

subsection \<open>File names and the loop over the segments (lines 93 to 212)\<close>

definition filename :: "string \<Rightarrow> int \<Rightarrow> instant \<Rightarrow> string" where
  "filename sitename samplefreq seg_start =
     ''obspack_'' @ sitename @ ''_freq'' @ str_int samplefreq @ ''s.'' @
     split_first (str_Timestamp seg_start) @ ''.nc''"

text \<open>
  The state of the loop is the list \<open>all_files\<close> and the files written so far, each a
  path with the dataset \<open>to_netcdf\<close> was given. An exception leaves the loop with the
  files already written.
\<close>

fun segment_loop ::
  "('a \<Rightarrow> 'f) \<Rightarrow> string \<Rightarrow> 'a \<Rightarrow> 'a \<Rightarrow> string \<Rightarrow> string \<Rightarrow> int \<Rightarrow> int \<Rightarrow> string
     \<Rightarrow> (instant \<times> instant) list \<Rightarrow> string list \<Rightarrow> (string \<times> 'f dataset) list
     \<Rightarrow> (error + string list) \<times> (string \<times> 'f dataset) list" where
  "segment_loop float32 sitename lat lon datestart dateend samplefreq sample_stragety outpath
       [] all_files written = (Inr all_files, written)"
| "segment_loop float32 sitename lat lon datestart dateend samplefreq sample_stragety outpath
       ((seg_start, seg_end) # segs) all_files written =
     (case make_dataset float32 sitename lat lon datestart dateend samplefreq sample_stragety
             seg_start seg_end of
        Inl err \<Rightarrow> (Inl err, written)
      | Inr ds \<Rightarrow>
          let path = outpath @ filename sitename samplefreq seg_start
          in segment_loop float32 sitename lat lon datestart dateend samplefreq
               sample_stragety outpath segs (all_files @ [path]) (written @ [(path, ds)]))"

text \<open>
  The function itself: what it returns or raises, and the files on disk when it ends.
\<close>

definition make_ObsPack_Input_netcdfs ::
  "('a \<Rightarrow> 'f) \<Rightarrow> string \<Rightarrow> 'a \<Rightarrow> 'a \<Rightarrow> 'a \<Rightarrow> string \<Rightarrow> string \<Rightarrow> int \<Rightarrow> int \<Rightarrow> string
     \<Rightarrow> (error + string list) \<times> (string \<times> 'f dataset) list" where
  "make_ObsPack_Input_netcdfs float32 sitename lat lon alt datestart dateend samplefreq
       sample_stragety outpath =
     (case strptime datestart of
        Inl err \<Rightarrow> (Inl err, [])
      | Inr start \<Rightarrow>
          (case strptime dateend of
             Inl err \<Rightarrow> (Inl err, [])
           | Inr endd \<Rightarrow>
               (case day_segments start endd of
                  Inl err \<Rightarrow> (Inl err, [])
                | Inr segs \<Rightarrow>
                    segment_loop float32 sitename lat lon datestart dateend samplefreq
                      sample_stragety outpath segs [] [])))"

definition files_written ::
  "(error + string list) \<times> (string \<times> 'f dataset) list \<Rightarrow> (string \<times> 'f dataset) list" where
  "files_written outcome = snd outcome"

definition returned ::
  "(error + string list) \<times> (string \<times> 'f dataset) list \<Rightarrow> error + string list" where
  "returned outcome = fst outcome"

subsection \<open>Reading a record back\<close>

text \<open>
  Reading a row of \<open>time_components\<close> back as a time: the six columns, in the order
  year, month, day, hour, minute, second, are given to the \<open>datetime\<close> constructor.
  A row that does not have six columns, or whose columns are not the components of a
  date and a time of day, names no instant.
\<close>

definition reconstruct :: "int list \<Rightarrow> instant option" where
  "reconstruct row =
     (case row of
        [year, month, day, hour, minute, second] \<Rightarrow>
          datetime year month day hour minute second
      | _ \<Rightarrow> None)"

section \<open>Properties of the primitives\<close>

subsection \<open>Decimal strings\<close>

lemma digit_cases: "d < 10 \<Longrightarrow> d = 0 \<or> d = 1 \<or> d = 2 \<or> d = 3 \<or> d = 4 \<or> d = 5 \<or> d = 6 \<or> d = 7 \<or> d = 8 \<or> d = (9::nat)"
  by arith

lemma digit_val_digit_char: "d < 10 \<Longrightarrow> digit_val (digit_char d) = d"
  using digit_cases [of d] by (auto simp: digit_char_def digit_val_def)

lemma is_digit_digit_char: "d < 10 \<Longrightarrow> is_digit (digit_char d)"
  using digit_cases [of d] by (auto simp: digit_char_def is_digit_def)

lemma str_nat_digits: "list_all is_digit (str_nat n)"
proof (induction n rule: str_nat.induct)
  case (1 n)
  show ?case
  proof (cases "n < 10")
    case True
    then show ?thesis by (simp add: str_nat.simps [of n] is_digit_digit_char)
  next
    case False
    with 1 show ?thesis by (simp add: str_nat.simps [of n] is_digit_digit_char)
  qed
qed

lemma str_nat_not_Nil: "str_nat n \<noteq> []"
  by (subst str_nat.simps) simp

lemma digits_val_str_nat: "foldl (\<lambda>a c. 10 * a + digit_val c) 0 (str_nat n) = n"
proof (induction n rule: str_nat.induct)
  case (1 n)
  show ?case
  proof (cases "n < 10")
    case True
    then show ?thesis by (simp add: str_nat.simps [of n] digit_val_digit_char)
  next
    case False
    with 1 show ?thesis by (simp add: str_nat.simps [of n] digit_val_digit_char)
  qed
qed

lemma digits_val_zeros:
  "foldl (\<lambda>a c. 10 * a + digit_val c) 0 (replicate k CHR ''0'' @ s)
     = foldl (\<lambda>a c. 10 * a + digit_val c) 0 s"
  by (induction k) (simp_all add: digit_val_def)

lemma astype_int_zfill: "astype_int (zfill w (str_nat n)) = int n"
  by (simp add: astype_int_def zfill_def digits_val_zeros digits_val_str_nat del: foldl_append)

lemma str_nat_inj:
  assumes "str_nat a = str_nat b"
  shows "a = b"
proof -
  have "a = foldl (\<lambda>a c. 10 * a + digit_val c) 0 (str_nat a)"
    by (simp only: digits_val_str_nat)
  also have "\<dots> = foldl (\<lambda>a c. 10 * a + digit_val c) 0 (str_nat b)"
    by (simp only: assms)
  also have "\<dots> = b"
    by (simp only: digits_val_str_nat)
  finally show ?thesis .
qed

lemma underscore_not_digit: "\<not> is_digit CHR ''_''"
  by (simp add: is_digit_def)

lemma takeWhile_digits_ljust:
  "list_all is_digit s \<Longrightarrow> takeWhile is_digit (s @ replicate k CHR ''_'') = s"
  by (simp add: takeWhile_append2 list_all_iff takeWhile_replicate underscore_not_digit)

lemma ljust_inj:
  assumes "ljust w CHR ''_'' (p @ str_nat a) = ljust w CHR ''_'' (p @ str_nat b)"
  shows "a = b"
proof -
  let ?ka = "w - length (p @ str_nat a)" and ?kb = "w - length (p @ str_nat b)"
  from assms have "str_nat a @ replicate ?ka CHR ''_'' = str_nat b @ replicate ?kb CHR ''_''"
    by (simp add: ljust_def)
  then have "takeWhile is_digit (str_nat a @ replicate ?ka CHR ''_'')
      = takeWhile is_digit (str_nat b @ replicate ?kb CHR ''_'')"
    by simp
  then have "str_nat a = str_nat b"
    by (simp only: takeWhile_digits_ljust [OF str_nat_digits])
  then show ?thesis by (rule str_nat_inj)
qed

lemma length_ljust: "length (ljust w c s) = max w (length s)"
  by (simp add: ljust_def)

lemma fill_ids_Inr:
  "fill_ids prefix n = Inr ids \<Longrightarrow>
     ids = map (\<lambda>stri. ljust 200 CHR ''_'' (prefix @ stri)) n
     \<and> (\<forall>stri \<in> set n. length (prefix @ stri) \<le> 200)"
proof (induction n arbitrary: ids)
  case Nil
  then show ?case by simp
next
  case (Cons stri n)
  from Cons.prems obtain rows where
    len: "length (ljust 200 CHR ''_'' (prefix @ stri)) = 200"
    and rows: "fill_ids prefix n = Inr rows"
    and ids: "ids = ljust 200 CHR ''_'' (prefix @ stri) # rows"
    by (auto simp: Let_def split: if_splits sum.splits)
  from len have "length (prefix @ stri) \<le> 200"
    by (simp add: length_ljust)
  with Cons.IH [OF rows] ids show ?case by simp
qed

lemma fill_ids_fits:
  "(\<forall>stri \<in> set n. length (prefix @ stri) \<le> 200) \<Longrightarrow>
     fill_ids prefix n = Inr (map (\<lambda>stri. ljust 200 CHR ''_'' (prefix @ stri)) n)"
  by (induction n) (simp_all add: Let_def length_ljust)

subsection \<open>Ranges of times\<close>

lemma ceil_steps:
  fixes f k :: int
  assumes "f \<noteq> 0"
  shows "(- (k * (f * 1000000000) + (f * 1000000000) div 2 + 1)) div (f * 1000000000) = - k - 1"
proof -
  have half: "(f * 1000000000) div 2 = f * 500000000" by simp
  show ?thesis
  proof (cases "0 < f")
    case True
    show ?thesis
    proof (rule int_div_pos_eq [where r = "f * 500000000 - 1"])
      show "- (k * (f * 1000000000) + (f * 1000000000) div 2 + 1)
          = f * 1000000000 * (- k - 1) + (f * 500000000 - 1)"
        unfolding half by (simp add: algebra_simps)
      show "0 \<le> f * 500000000 - 1" using True by simp
      show "f * 500000000 - 1 < f * 1000000000" using True by simp
    qed
  next
    case False
    with assms have neg: "f < 0" by simp
    show ?thesis
    proof (rule int_div_neg_eq [where r = "f * 500000000 - 1"])
      show "- (k * (f * 1000000000) + (f * 1000000000) div 2 + 1)
          = f * 1000000000 * (- k - 1) + (f * 500000000 - 1)"
        unfolding half by (simp add: algebra_simps)
      show "f * 500000000 - 1 \<le> 0" using neg by simp
      show "f * 1000000000 < f * 500000000 - 1" using neg by simp
    qed
  qed
qed

lemma scaled_div:
  fixes N :: int
  assumes "N \<noteq> 0"
  shows "(e * N - s * N) div (f * N) = (e - s) div f"
proof -
  have "e * N - s * N = (e - s) * N" by (simp only: left_diff_distrib)
  then show ?thesis using assms by simp
qed

lemma scaled_elem:
  fixes N :: int
  assumes "N \<noteq> 0"
  shows "(s * N + i * (f * N)) div N = s + i * f"
proof -
  have "s * N + i * (f * N) = (s + i * f) * N" by (simp only: algebra_simps)
  then show ?thesis using assms by simp
qed

lemma date_range_eq:
  assumes "freq \<noteq> 0"
  shows "date_range start endd freq
    = Inr (map (\<lambda>i. start + int i * freq) [0..<nat ((endd - start) div freq + 1)])"
proof -
  let ?N = "1000000000 :: int"
  let ?k = "(endd - start) div freq"
  let ?e = "start * ?N + ?k * (freq * ?N) + (freq * ?N) div 2 + 1"
  have N: "?N \<noteq> 0" by simp
  have k: "(endd * ?N - start * ?N) div (freq * ?N) = ?k"
    using N by (rule scaled_div)
  have stride: "freq * ?N \<noteq> 0" using assms by simp
  have "start * ?N - ?e = - (?k * (freq * ?N) + (freq * ?N) div 2 + 1)"
    by (simp only: algebra_simps)
  then have "(start * ?N - ?e) div (freq * ?N) = - ?k - 1"
    by (simp only: ceil_steps [OF assms])
  then have cnt: "- ((start * ?N - ?e) div (freq * ?N)) = ?k + 1"
    by linarith
  have el: "(start * ?N + int i * (freq * ?N)) div ?N = start + int i * freq" for i
    using N by (rule scaled_elem)
  have "date_range start endd freq
      = Inr (map (\<lambda>v. v div ?N) (np_arange (start * ?N) ?e (freq * ?N)))"
    unfolding date_range_def Let_def k using stride by (simp only: if_False)
  also have "np_arange (start * ?N) ?e (freq * ?N)
      = map (\<lambda>i. start * ?N + int i * (freq * ?N)) [0..<nat (?k + 1)]"
    unfolding np_arange_def cnt ..
  also have "map (\<lambda>v. v div ?N) (map (\<lambda>i. start * ?N + int i * (freq * ?N)) [0..<nat (?k + 1)])
      = map (\<lambda>i. start + int i * freq) [0..<nat (?k + 1)]"
    by (simp only: map_map comp_def el)
  finally show ?thesis .
qed

lemma length_date_range:
  "freq \<noteq> 0 \<Longrightarrow> date_range start endd freq = Inr dts \<Longrightarrow>
     length dts = nat ((endd - start) div freq + 1)"
  by (auto simp: date_range_eq)

lemma date_range_zero: "date_range start endd 0 = Inl ZeroDivisionError"
  by (simp add: date_range_def)

subsection \<open>The calendar\<close>

lemma days_before_year_cycles:
  fixes q a b c :: int
  assumes "0 \<le> a" "a \<le> 3" "0 \<le> b" "b \<le> 24" "0 \<le> c" "c \<le> 3"
  shows "days_before_year (q * 400 + 1 + a * 100 + b * 4 + c)
     = 146097 * q + 36524 * a + 1461 * b + 365 * c"
proof -
  let ?y = "q * 400 + a * 100 + b * 4 + c"
  have d4: "?y div 4 = 100 * q + 25 * a + b"
  proof (rule int_div_pos_eq [where r = c])
    show "?y = 4 * (100 * q + 25 * a + b) + c" by (simp add: algebra_simps)
  qed (use assms in linarith)+
  have d100: "?y div 100 = 4 * q + a"
  proof (rule int_div_pos_eq [where r = "b * 4 + c"])
    show "?y = 100 * (4 * q + a) + (b * 4 + c)" by (simp add: algebra_simps)
  qed (use assms in linarith)+
  have d400: "?y div 400 = q"
  proof (rule int_div_pos_eq [where r = "a * 100 + b * 4 + c"])
    show "?y = 400 * q + (a * 100 + b * 4 + c)" by (simp add: algebra_simps)
  qed (use assms in linarith)+
  have y: "q * 400 + 1 + a * 100 + b * 4 + c - 1 = ?y" by simp
  have "days_before_year (q * 400 + 1 + a * 100 + b * 4 + c)
      = ?y * 365 + ?y div 4 - ?y div 100 + ?y div 400"
    unfolding days_before_year_def Let_def y ..
  also have "\<dots> = 146097 * q + 36524 * a + 1461 * b + 365 * c"
    unfolding d4 d100 d400 by (simp add: algebra_simps)
  finally show ?thesis .
qed

lemma mod_zero_top:
  fixes x m :: int
  assumes "0 < x" "x \<le> m"
  shows "x mod m = 0 \<longleftrightarrow> x = m"
proof (cases "x = m")
  case True
  then show ?thesis by simp
next
  case False
  with assms have "x < m" by simp
  with assms have "x mod m = x" by simp
  with assms False show ?thesis by simp
qed

lemma is_leap_cycles:
  fixes q a b c :: int
  assumes "0 \<le> a" "a \<le> 3" "0 \<le> b" "b \<le> 24" "0 \<le> c" "c \<le> 3"
  shows "is_leap (q * 400 + 1 + a * 100 + b * 4 + c) \<longleftrightarrow> (c = 3 \<and> (b \<noteq> 24 \<or> a = 3))"
proof -
  let ?y = "q * 400 + 1 + a * 100 + b * 4 + c"
  have m4: "?y mod 4 = (c + 1) mod 4"
  proof -
    have "?y = (c + 1) + (q * 100 + a * 25 + b) * 4" by (simp add: algebra_simps)
    then show ?thesis by (simp only: mod_mult_self1)
  qed
  have m100: "?y mod 100 = (b * 4 + c + 1) mod 100"
  proof -
    have "?y = (b * 4 + c + 1) + (q * 4 + a) * 100" by (simp add: algebra_simps)
    then show ?thesis by (simp only: mod_mult_self1)
  qed
  have m400: "?y mod 400 = (a * 100 + b * 4 + c + 1) mod 400"
  proof -
    have "?y = (a * 100 + b * 4 + c + 1) + q * 400" by (simp add: algebra_simps)
    then show ?thesis by (simp only: mod_mult_self1)
  qed
  have e4: "(c + 1) mod 4 = 0 \<longleftrightarrow> c + 1 = 4"
    by (rule mod_zero_top) (use assms in linarith)+
  have e100: "(b * 4 + c + 1) mod 100 = 0 \<longleftrightarrow> b * 4 + c + 1 = 100"
    by (rule mod_zero_top) (use assms in linarith)+
  have e400: "(a * 100 + b * 4 + c + 1) mod 400 = 0 \<longleftrightarrow> a * 100 + b * 4 + c + 1 = 400"
    by (rule mod_zero_top) (use assms in linarith)+
  have "is_leap ?y \<longleftrightarrow> (c + 1 = 4 \<and> (b * 4 + c + 1 \<noteq> 100 \<or> a * 100 + b * 4 + c + 1 = 400))"
    unfolding is_leap_def m4 m100 m400 e4 e100 e400 ..
  also have "\<dots> \<longleftrightarrow> (c = 3 \<and> (b \<noteq> 24 \<or> a = 3))"
    using assms by auto
  finally show ?thesis .
qed

lemma time_of_day:
  fixes t :: int
  shows "t div 86400 * 86400 + (t mod 86400 div 3600 * 3600 + t mod 3600 div 60 * 60 + t mod 60) = t"
proof -
  have a: "t = t div 86400 * 86400 + t mod 86400" by simp
  have b: "t mod 86400 = t mod 86400 div 3600 * 3600 + t mod 86400 mod 3600" by simp
  have c: "t mod 86400 mod 3600 = t mod 3600" by (simp add: mod_mod_cancel)
  have d: "t mod 3600 = t mod 3600 div 60 * 60 + t mod 3600 mod 60" by simp
  have e: "t mod 3600 mod 60 = t mod 60" by (simp add: mod_mod_cancel)
  from a b c d e show ?thesis by linarith
qed

lemma time_of_day_ranges:
  fixes t :: int
  shows "0 \<le> t mod 86400 div 3600" "0 \<le> t mod 3600 div 60" "0 \<le> t mod 60"
  by simp_all

lemma one_to_twelve:
  fixes k :: int
  assumes "1 \<le> k" "k \<le> 12"
  shows "k \<in> {1, 2, 3, 4, 5, 6, 7, 8, 9, 10, 11, 12}"
proof -
  from assms have "k = 1 \<or> k = 2 \<or> k = 3 \<or> k = 4 \<or> k = 5 \<or> k = 6 \<or> k = 7 \<or> k = 8
      \<or> k = 9 \<or> k = 10 \<or> k = 11 \<or> k = 12"
    by arith
  then show ?thesis by blast
qed

lemma month_estimate:
  fixes r :: int
  assumes "0 \<le> r" "r \<le> 364"
  shows "(r + 50) div 32 \<in> {1, 2, 3, 4, 5, 6, 7, 8, 9, 10, 11, 12}"
proof -
  have "1 \<le> (r + 50) div 32" "(r + 50) div 32 \<le> 12" using assms by linarith+
  then show ?thesis by (rule one_to_twelve)
qed

lemma month_window:
  fixes r k :: int
  assumes "(r + 50) div 32 = k"
  shows "32 * k - 50 \<le> r" "r \<le> 32 * k - 19"
  using assms by linarith+

text \<open>The month and the day within the year, for day number r (from 0) of a year.\<close>

lemma month_day:
  fixes r :: int and leap :: bool
  assumes "0 \<le> r" "r \<le> 364"
  defines "m0 \<equiv> (r + 50) div 32"
  defines "p0 \<equiv> DAYS_BEFORE_MONTH ! nat m0 + (if m0 > 2 \<and> leap then 1 else 0)"
  defines "m \<equiv> (if p0 > r then m0 - 1 else m0)"
  defines "p \<equiv> (if p0 > r
                  then p0 - (DAYS_IN_MONTH ! nat (m0 - 1) + (if m0 - 1 = 2 \<and> leap then 1 else 0))
                  else p0)"
  shows "1 \<le> m \<and> m \<le> 12
       \<and> p = DAYS_BEFORE_MONTH ! nat m + (if m > 2 \<and> leap then 1 else 0)
       \<and> p \<le> r
       \<and> r - p + 1 \<le> (if m = 2 \<and> leap then 29 else DAYS_IN_MONTH ! nat m)"
proof -
  have "m0 \<in> {1, 2, 3, 4, 5, 6, 7, 8, 9, 10, 11, 12}"
    unfolding m0_def using assms(1,2) by (rule month_estimate)
  then consider "m0 = 1" | "m0 = 2" | "m0 = 3" | "m0 = 4" | "m0 = 5" | "m0 = 6"
    | "m0 = 7" | "m0 = 8" | "m0 = 9" | "m0 = 10" | "m0 = 11" | "m0 = 12"
    by auto
  then show ?thesis
  proof cases
    case 1
    from month_window [OF 1 [unfolded m0_def]] assms(1) show ?thesis
      unfolding m_def p_def p0_def 1 by (simp add: DAYS_BEFORE_MONTH_def DAYS_IN_MONTH_def)
  next
    case 2
    from month_window [OF 2 [unfolded m0_def]] show ?thesis
      unfolding m_def p_def p0_def 2 by (simp add: DAYS_BEFORE_MONTH_def DAYS_IN_MONTH_def)
  next
    case 3
    from month_window [OF 3 [unfolded m0_def]] show ?thesis
      unfolding m_def p_def p0_def 3 by (simp add: DAYS_BEFORE_MONTH_def DAYS_IN_MONTH_def)
  next
    case 4
    from month_window [OF 4 [unfolded m0_def]] show ?thesis
      unfolding m_def p_def p0_def 4 by (simp add: DAYS_BEFORE_MONTH_def DAYS_IN_MONTH_def)
  next
    case 5
    from month_window [OF 5 [unfolded m0_def]] show ?thesis
      unfolding m_def p_def p0_def 5 by (simp add: DAYS_BEFORE_MONTH_def DAYS_IN_MONTH_def)
  next
    case 6
    from month_window [OF 6 [unfolded m0_def]] show ?thesis
      unfolding m_def p_def p0_def 6 by (simp add: DAYS_BEFORE_MONTH_def DAYS_IN_MONTH_def)
  next
    case 7
    from month_window [OF 7 [unfolded m0_def]] show ?thesis
      unfolding m_def p_def p0_def 7 by (simp add: DAYS_BEFORE_MONTH_def DAYS_IN_MONTH_def)
  next
    case 8
    from month_window [OF 8 [unfolded m0_def]] show ?thesis
      unfolding m_def p_def p0_def 8 by (simp add: DAYS_BEFORE_MONTH_def DAYS_IN_MONTH_def)
  next
    case 9
    from month_window [OF 9 [unfolded m0_def]] show ?thesis
      unfolding m_def p_def p0_def 9 by (simp add: DAYS_BEFORE_MONTH_def DAYS_IN_MONTH_def)
  next
    case 10
    from month_window [OF 10 [unfolded m0_def]] show ?thesis
      unfolding m_def p_def p0_def 10 by (simp add: DAYS_BEFORE_MONTH_def DAYS_IN_MONTH_def)
  next
    case 11
    from month_window [OF 11 [unfolded m0_def]] show ?thesis
      unfolding m_def p_def p0_def 11 by (simp add: DAYS_BEFORE_MONTH_def DAYS_IN_MONTH_def)
  next
    case 12
    from month_window [OF 12 [unfolded m0_def]] assms(2) show ?thesis
      unfolding m_def p_def p0_def 12 by (simp add: DAYS_BEFORE_MONTH_def DAYS_IN_MONTH_def)
  qed
qed

lemma ord2ymd_correct:
  assumes res: "ord2ymd n = (y, m, d)"
  shows "ymd2ord y m d = n \<and> 1 \<le> m \<and> m \<le> 12 \<and> 1 \<le> d \<and> d \<le> days_in_month y m
         \<and> (1 \<le> n \<longrightarrow> 1 \<le> y)"
proof -
  define n0 where "n0 = n - 1"
  define q where "q = n0 div 146097"
  define r1 where "r1 = n0 mod 146097"
  define a where "a = r1 div 36524"
  define r2 where "r2 = r1 mod 36524"
  define b where "b = r2 div 1461"
  define r3 where "r3 = r2 mod 1461"
  define c where "c = r3 div 365"
  define r where "r = r3 mod 365"
  define leap where "leap = (c = 3 \<and> (b \<noteq> 24 \<or> a = 3))"
  define m0 where "m0 = (r + 50) div 32"
  define p0 where "p0 = DAYS_BEFORE_MONTH ! nat m0 + (if m0 > 2 \<and> leap then 1 else 0)"
  define Y where "Y = q * 400 + 1 + a * 100 + b * 4 + c"
  have unf: "ord2ymd n =
      (if c = 4 \<or> a = 4 then (Y - 1, 12, 31)
       else if p0 > r
         then (Y, m0 - 1,
               r - (p0 - (DAYS_IN_MONTH ! nat (m0 - 1) + (if m0 - 1 = 2 \<and> leap then 1 else 0))) + 1)
         else (Y, m0, r - p0 + 1))"
    unfolding ord2ymd_def Let_def Y_def p0_def m0_def leap_def r_def c_def r3_def b_def r2_def
      a_def r1_def q_def n0_def ..
  have n0: "n0 = 146097 * q + r1" and r1: "0 \<le> r1" "r1 < 146097"
    unfolding q_def r1_def by simp_all
  have r1': "r1 = 36524 * a + r2" and r2: "0 \<le> r2" "r2 < 36524"
    unfolding a_def r2_def by simp_all
  have r2': "r2 = 1461 * b + r3" and r3: "0 \<le> r3" "r3 < 1461"
    unfolding b_def r3_def by simp_all
  have r3': "r3 = 365 * c + r" and r: "0 \<le> r" "r < 365"
    unfolding c_def r_def by simp_all
  have a: "0 \<le> a" "a \<le> 4" using r1 r1' r2 by linarith+
  have b: "0 \<le> b" "b \<le> 24" using r2 r2' r3 by linarith+
  have c: "0 \<le> c" "c \<le> 4" using r3 r3' r by linarith+
  have q: "1 \<le> n \<Longrightarrow> 0 \<le> q"
    unfolding q_def n0_def by simp
  show ?thesis
  proof (cases "a = 4")
    case True
    with r1 r1' r2 have "r2 = 0" by linarith
    with r2' b r3 have "b = 0" "r3 = 0" by linarith+
    with r3' c r have "c = 0" "r = 0" by linarith+
    have n: "n = 146097 * q + 146097"
      using n0 r1' \<open>r2 = 0\<close> True by (simp add: n0_def)
    have Y1: "Y - 1 = q * 400 + 1 + 3 * 100 + 24 * 4 + 3"
      unfolding Y_def using True \<open>b = 0\<close> \<open>c = 0\<close> by simp
    have dby: "days_before_year (Y - 1) = 146097 * q + 36524 * 3 + 1461 * 24 + 365 * 3"
      unfolding Y1 by (rule days_before_year_cycles) simp_all
    have lp: "is_leap (Y - 1)"
      unfolding Y1 by (subst is_leap_cycles) simp_all
    from res unf True have ymd: "y = Y - 1" "m = 12" "d = 31" by simp_all
    have "ymd2ord y m d = n"
      unfolding ymd ymd2ord_def days_before_month_def dby n
      using lp by (simp add: DAYS_BEFORE_MONTH_def)
    moreover have "days_in_month y m = 31"
      unfolding ymd days_in_month_def by (simp add: DAYS_IN_MONTH_def)
    moreover have "1 \<le> n \<longrightarrow> 1 \<le> y"
      using q unfolding ymd Y1 by auto
    ultimately show ?thesis using ymd by simp
  next
    case a4: False
    with a have a3: "a \<le> 3" by simp
    show ?thesis
    proof (cases "c = 4")
      case True
      with r3 r3' r have "r = 0" by linarith
      from True r2 r2' r3' r have "b \<le> 23" by linarith
      have n: "n = 146097 * q + 36524 * a + 1461 * b + 1461"
        using n0 r1' r2' r3' True \<open>r = 0\<close> by (simp add: n0_def)
      have Y1: "Y - 1 = q * 400 + 1 + a * 100 + b * 4 + 3"
        unfolding Y_def using True by simp
      have dby: "days_before_year (Y - 1) = 146097 * q + 36524 * a + 1461 * b + 365 * 3"
        unfolding Y1 by (rule days_before_year_cycles) (use a a3 b in simp_all)
      have "is_leap (Y - 1) \<longleftrightarrow> ((3::int) = 3 \<and> (b \<noteq> 24 \<or> a = 3))"
        unfolding Y1 by (rule is_leap_cycles) (use a a3 b in simp_all)
      with \<open>b \<le> 23\<close> have lp: "is_leap (Y - 1)" by simp
      from res unf True have ymd: "y = Y - 1" "m = 12" "d = 31" by simp_all
      have "ymd2ord y m d = n"
        unfolding ymd ymd2ord_def days_before_month_def dby n
        using lp by (simp add: DAYS_BEFORE_MONTH_def)
      moreover have "days_in_month y m = 31"
        unfolding ymd days_in_month_def by (simp add: DAYS_IN_MONTH_def)
      moreover have "1 \<le> n \<longrightarrow> 1 \<le> y"
        using q a b unfolding ymd Y1 by auto
      ultimately show ?thesis using ymd by simp
    next
      case c4: False
      with c have c3: "c \<le> 3" by simp
      have n: "n = 146097 * q + 36524 * a + 1461 * b + 365 * c + r + 1"
        using n0 r1' r2' r3' by (simp add: n0_def)
      have dby: "days_before_year Y = 146097 * q + 36524 * a + 1461 * b + 365 * c"
        unfolding Y_def by (rule days_before_year_cycles) (use a a3 b c c3 in simp_all)
      have lp: "is_leap Y \<longleftrightarrow> leap"
        unfolding Y_def leap_def by (rule is_leap_cycles) (use a a3 b c c3 in simp_all)
      define mm where "mm = (if p0 > r then m0 - 1 else m0)"
      define pp where "pp = (if p0 > r
          then p0 - (DAYS_IN_MONTH ! nat (m0 - 1) + (if m0 - 1 = 2 \<and> leap then 1 else 0))
          else p0)"
      from r have r364: "r \<le> 364" by simp
      have md: "1 \<le> mm \<and> mm \<le> 12
          \<and> pp = DAYS_BEFORE_MONTH ! nat mm + (if mm > 2 \<and> leap then 1 else 0)
          \<and> pp \<le> r
          \<and> r - pp + 1 \<le> (if mm = 2 \<and> leap then 29 else DAYS_IN_MONTH ! nat mm)"
        unfolding mm_def pp_def p0_def m0_def by (rule month_day [OF r(1) r364])
      have "ord2ymd n = (Y, mm, r - pp + 1)"
        unfolding unf mm_def pp_def using a4 c4 by (cases "r < p0") simp_all
      with res have ymd: "y = Y" "m = mm" "d = r - pp + 1" by simp_all
      have dbm: "days_before_month Y mm = pp"
        unfolding days_before_month_def lp using md by simp
      have "ymd2ord y m d = n"
        unfolding ymd ymd2ord_def dby dbm n by simp
      moreover have "d \<le> days_in_month y m"
        unfolding ymd days_in_month_def lp using md by simp
      moreover have "1 \<le> n \<longrightarrow> 1 \<le> y"
        using q a b c unfolding ymd Y_def by auto
      moreover have "1 \<le> d" unfolding ymd using md by simp
      ultimately show ?thesis using md ymd by simp
    qed
  qed
qed

lemma to_instant_fields:
  "to_instant (year_of t) (month_of t) (day_of t) (hour_of t) (minute_of t) (second_of t) = t"
proof -
  obtain y m d where ymd: "ord2ymd (t div 86400 + 1) = (y, m, d)"
    by (cases "ord2ymd (t div 86400 + 1)") auto
  from ord2ymd_correct [OF ymd] have "ymd2ord y m d = t div 86400 + 1" by simp
  then have "to_instant y m d (hour_of t) (minute_of t) (second_of t)
      = t div 86400 * 86400 + (t mod 86400 div 3600 * 3600 + t mod 3600 div 60 * 60 + t mod 60)"
    unfolding to_instant_def hour_of_def minute_of_def second_of_def by simp
  also have "\<dots> = t" by (rule time_of_day)
  finally show ?thesis
    unfolding year_of_def month_of_def day_of_def ymd by simp
qed

lemma fields_nonneg:
  assumes "0 \<le> t"
  shows "0 \<le> year_of t" "0 \<le> month_of t" "0 \<le> day_of t"
    "0 \<le> hour_of t" "0 \<le> minute_of t" "0 \<le> second_of t"
proof -
  obtain y m d where ymd: "ord2ymd (t div 86400 + 1) = (y, m, d)"
    by (cases "ord2ymd (t div 86400 + 1)") auto
  from assms have "1 \<le> t div 86400 + 1"
    by (simp add: pos_imp_zdiv_nonneg_iff)
  with ord2ymd_correct [OF ymd] have "1 \<le> y" "1 \<le> m" "1 \<le> d" by simp_all
  then show "0 \<le> year_of t" "0 \<le> month_of t" "0 \<le> day_of t"
    unfolding year_of_def month_of_def day_of_def ymd by simp_all
  show "0 \<le> hour_of t" "0 \<le> minute_of t" "0 \<le> second_of t"
    unfolding hour_of_def minute_of_def second_of_def by (rule time_of_day_ranges)+
qed

lemma time_row_fields:
  assumes "0 \<le> t"
  shows "time_row t = [year_of t, month_of t, day_of t, hour_of t, minute_of t, second_of t]"
  using fields_nonneg [OF assms]
  unfolding time_row_def strftime_Y_def strftime_m_def strftime_d_def strftime_H_def
    strftime_M_def strftime_S_def astype_int_zfill
  by simp

lemma length_time_row: "length (time_row t) = 6"
  by (simp add: time_row_def)

subsection \<open>Day segments\<close>

lemma day_starts:
  "date_range start endd 86400
     = Inr (map (\<lambda>i. start + int i * 86400) [0..<nat ((endd - start) div 86400 + 1)])"
  by (rule date_range_eq) simp

lemma day_segments_empty:
  assumes "endd \<le> start"
  shows "day_segments start endd = Inl IndexError"
proof (cases "endd = start")
  case True
  then show ?thesis
    by (simp add: day_segments_def day_starts day_count_def timedelta_seconds_def
        timedelta_days_def slice_to_def)
next
  case False
  with assms have "endd - start < 0" by simp
  then have "(endd - start) div 86400 < 0"
    by (simp add: div_neg_pos_less0)
  then have "nat ((endd - start) div 86400 + 1) = 0" by simp
  then show ?thesis
    by (simp add: day_segments_def day_starts slice_to_def)
qed

lemma day_count_pos:
  assumes "start < endd"
  shows "1 \<le> day_count start endd"
    and "day_count start endd \<le> (endd - start) div 86400 + 1"
proof -
  let ?d = "endd - start"
  from assms have d: "0 < ?d" by simp
  then have q: "0 \<le> ?d div 86400" by (simp add: pos_imp_zdiv_nonneg_iff)
  have dm: "?d = ?d div 86400 * 86400 + ?d mod 86400" by simp
  show "1 \<le> day_count start endd"
  proof (cases "?d mod 86400 = 0")
    case True
    with dm d have "0 < ?d div 86400" by linarith
    with True show ?thesis
      by (simp add: day_count_def timedelta_seconds_def timedelta_days_def Let_def)
  next
    case False
    with q show ?thesis
      by (simp add: day_count_def timedelta_seconds_def timedelta_days_def Let_def)
  qed
  show "day_count start endd \<le> ?d div 86400 + 1"
    by (simp add: day_count_def timedelta_seconds_def timedelta_days_def Let_def)
qed

lemma day_segments_eq:
  assumes "start < endd"
  defines "n \<equiv> nat (day_count start endd)"
  shows "day_segments start endd
    = Inr (map (\<lambda>i. (start + int i * 86400,
                      if (endd - start) mod 86400 \<noteq> 0 \<and> Suc i = n then endd
                      else start + int i * 86400 + 86399)) [0..<n])"
proof -
  let ?d = "endd - start"
  let ?f = "\<lambda>i. start + int i * 86400"
  let ?g = "\<lambda>i. start + int i * 86400 + 86400 - 1"
  from day_count_pos [OF assms(1)] have n1: "1 \<le> n" and nq: "n \<le> nat (?d div 86400 + 1)"
    unfolding n_def by simp_all
  have dm: "?d = ?d div 86400 * 86400 + ?d mod 86400" by simp
  have nint: "int n = day_count start endd"
    unfolding n_def using day_count_pos(1) [OF assms(1)] by simp
  have starts2Use: "slice_to (day_count start endd)
        (map ?f [0..<nat (?d div 86400 + 1)]) = map ?f [0..<n]"
    using day_count_pos(1) [OF assms(1)] nq
    by (simp add: slice_to_def take_map n_def min_def)
  have ends2Use: "map (\<lambda>s. s + 86400 - 1) (map ?f [0..<n]) = map ?g [0..<n]"
    by simp
  have nonempty: "map ?g [0..<n] \<noteq> []" using n1 by simp
  have lst: "last (map ?g [0..<n]) = ?g (n - 1)"
    using n1 by (simp add: last_map)
  define q where "q = ?d div 86400"
  define rm where "rm = ?d mod 86400"
  have e: "endd = start + q * 86400 + rm" unfolding q_def rm_def by simp
  have rm: "0 \<le> rm" "rm < 86400" unfolding rm_def by simp_all
  have cnt: "int n = (if rm \<noteq> 0 then q + 1 else q)"
    unfolding nint q_def rm_def
    by (simp add: day_count_def timedelta_seconds_def timedelta_days_def Let_def)
  have pred: "int (n - 1) = int n - 1" using n1 by simp
  have clamp: "last (map ?g [0..<n]) > endd \<longleftrightarrow> rm \<noteq> 0 \<and> rm \<noteq> 86399"
  proof (cases "rm = 0")
    case True
    with cnt pred have "int (n - 1) = q - 1" by simp
    then have "?g (n - 1) = start + q * 86400 - 1" by simp
    with e True show ?thesis unfolding lst by simp
  next
    case False
    with cnt pred have "int (n - 1) = q" by simp
    then have "?g (n - 1) = start + q * 86400 + 86399" by simp
    moreover have "start + q * 86400 + 86399 > start + q * 86400 + rm \<longleftrightarrow> rm \<noteq> 86399"
      using rm by auto
    ultimately show ?thesis using e False unfolding lst by simp
  qed
  have last_eq: "rm = 86399 \<Longrightarrow> ?g (n - 1) = endd"
  proof -
    assume m: "rm = 86399"
    with cnt pred have "int (n - 1) = q" by simp
    then have "?g (n - 1) = start + q * 86400 + 86399" by simp
    with e m show ?thesis by simp
  qed
  let ?ends = "if last (map ?g [0..<n]) > endd
               then (map ?g [0..<n])[length (map ?g [0..<n]) - 1 := endd]
               else map ?g [0..<n]"
  have unf: "day_segments start endd = Inr (zip (map ?f [0..<n]) ?ends)"
    by (simp only: day_segments_def day_starts sum.case Let_def starts2Use ends2Use
        nonempty if_False)
  have "zip (map ?f [0..<n]) ?ends
      = map (\<lambda>i. (?f i, if ?d mod 86400 \<noteq> 0 \<and> Suc i = n then endd else ?f i + 86399)) [0..<n]"
  proof (rule nth_equalityI)
    show "length (zip (map ?f [0..<n]) ?ends)
        = length (map (\<lambda>i. (?f i, if ?d mod 86400 \<noteq> 0 \<and> Suc i = n then endd else ?f i + 86399)) [0..<n])"
      by simp
  next
    fix i assume "i < length (zip (map ?f [0..<n]) ?ends)"
    then have i: "i < n" by simp
    have "?ends ! i = (if ?d mod 86400 \<noteq> 0 \<and> Suc i = n then endd else ?f i + 86399)"
    proof (cases "?d mod 86400 \<noteq> 0 \<and> Suc i = n")
      case True
      then have "i = n - 1" by auto
      show ?thesis
      proof (cases "rm = 86399")
        case m: True
        with clamp have "?ends = map ?g [0..<n]" by simp
        with i last_eq [OF m] True \<open>i = n - 1\<close> show ?thesis by simp
      next
        case False
        with clamp True have "?ends = (map ?g [0..<n])[length (map ?g [0..<n]) - 1 := endd]"
          unfolding rm_def by simp
        with i True \<open>i = n - 1\<close> show ?thesis by simp
      qed
    next
      case False
      show ?thesis
      proof (cases "last (map ?g [0..<n]) > endd")
        case c: True
        with clamp False have "i \<noteq> n - 1" using i unfolding rm_def by auto
        with c i False show ?thesis by auto
      next
        case c: False
        with i False show ?thesis by auto
      qed
    qed
    with i show "zip (map ?f [0..<n]) ?ends ! i
        = map (\<lambda>i. (?f i, if ?d mod 86400 \<noteq> 0 \<and> Suc i = n then endd else ?f i + 86399)) [0..<n] ! i"
      by simp
  qed
  with unf show ?thesis by simp
qed

lemma day_count_eq:
  "day_count start endd =
     (if (endd - start) mod 86400 \<noteq> 0 then (endd - start) div 86400 + 1
      else (endd - start) div 86400)"
  by (simp add: day_count_def timedelta_seconds_def timedelta_days_def Let_def)

lemma day_segments_Inr:
  assumes "day_segments start endd = Inr segs"
  shows "start < endd"
    and "segs = map (\<lambda>i. (start + int i * 86400,
                      if (endd - start) mod 86400 \<noteq> 0 \<and> Suc i = nat (day_count start endd)
                      then endd else start + int i * 86400 + 86399))
                 [0..<nat (day_count start endd)]"
proof -
  show lt: "start < endd"
  proof (rule ccontr)
    assume "\<not> start < endd"
    then have "day_segments start endd = Inl IndexError"
      by (intro day_segments_empty) simp
    with assms show False by simp
  qed
  from day_segments_eq [OF lt] assms show "segs = map (\<lambda>i. (start + int i * 86400,
                      if (endd - start) mod 86400 \<noteq> 0 \<and> Suc i = nat (day_count start endd)
                      then endd else start + int i * 86400 + 86399))
                 [0..<nat (day_count start endd)]"
    by simp
qed

lemma segment_bounds:
  assumes "day_segments start endd = Inr segs" and "(s, e) \<in> set segs"
  shows "start \<le> s" and "s \<le> e" and "e \<le> endd"
proof -
  let ?d = "endd - start"
  define n where "n = nat (day_count start endd)"
  define q where "q = ?d div 86400"
  define rm where "rm = ?d mod 86400"
  note lt = day_segments_Inr(1) [OF assms(1)]
  from day_segments_Inr(2) [OF assms(1)] assms(2)
  obtain i where i: "i < n" and s: "s = start + int i * 86400"
    and e: "e = (if rm \<noteq> 0 \<and> Suc i = n then endd else start + int i * 86400 + 86399)"
    unfolding n_def rm_def by auto
  have endd: "endd = start + q * 86400 + rm" unfolding q_def rm_def by simp
  have rm: "0 \<le> rm" "rm < 86400" unfolding rm_def by simp_all
  have cnt: "int n = (if rm \<noteq> 0 then q + 1 else q)"
    using day_count_pos(1) [OF lt] unfolding n_def day_count_eq q_def rm_def by simp
  show "start \<le> s" unfolding s by simp
  show "s \<le> e"
  proof (cases "rm \<noteq> 0 \<and> Suc i = n")
    case True
    then have "int i + 1 = int n" by linarith
    with True cnt have "int i = q" by simp
    with True e rm endd show ?thesis unfolding s by simp
  next
    case False
    with e show ?thesis unfolding s by auto
  qed
  show "e \<le> endd"
  proof (cases "rm \<noteq> 0 \<and> Suc i = n")
    case True
    with e show ?thesis by simp
  next
    case False
    have le: "int i * 86400 + 86400 \<le> q * 86400 + rm"
    proof (cases "rm = 0")
      case True
      with cnt i have "int i + 1 \<le> q" by simp
      with True show ?thesis by simp
    next
      case nz: False
      with False have "Suc i \<noteq> n" by simp
      with i have "int i + 1 < int n" by linarith
      with nz cnt have "int i + 1 \<le> q" by simp
      with rm show ?thesis by linarith
    qed
    from False e have "e = start + int i * 86400 + 86399" by auto
    with le endd show ?thesis by linarith
  qed
qed

lemma days_before_year_nonneg:
  assumes "1 \<le> year"
  shows "0 \<le> days_before_year year"
proof -
  let ?x = "year - 1"
  from assms have x: "0 \<le> ?x" by simp
  then have "?x div 100 \<le> ?x div 4" by (intro zdiv_mono2) simp_all
  moreover from x have "0 \<le> ?x div 400" by (simp add: pos_imp_zdiv_nonneg_iff)
  moreover from x have "0 \<le> ?x * 365" by simp
  ultimately show ?thesis unfolding days_before_year_def Let_def by linarith
qed

lemma days_before_month_nonneg:
  assumes "1 \<le> month" "month \<le> 12"
  shows "0 \<le> days_before_month year month"
proof -
  from assms have "month \<in> {1, 2, 3, 4, 5, 6, 7, 8, 9, 10, 11, 12}" by (rule one_to_twelve)
  then show ?thesis
    unfolding days_before_month_def by (auto simp: DAYS_BEFORE_MONTH_def)
qed

lemma datetime_nonneg:
  assumes "datetime year month day hour minute second = Some t"
  shows "0 \<le> t"
proof -
  from assms have c: "1 \<le> year" "1 \<le> month" "month \<le> 12" "1 \<le> day"
      "0 \<le> hour" "0 \<le> minute" "0 \<le> second"
    and t: "t = to_instant year month day hour minute second"
    by (auto simp: datetime_def split: if_splits)
  from days_before_year_nonneg [OF c(1)] days_before_month_nonneg [OF c(2,3), of year] c(4)
  have "0 \<le> ymd2ord year month day - 1" unfolding ymd2ord_def by linarith
  then have "0 \<le> (ymd2ord year month day - 1) * 86400" by simp
  with c show ?thesis unfolding t to_instant_def by linarith
qed

lemma strptime_nonneg:
  assumes "strptime s = Inr t"
  shows "0 \<le> t"
proof -
  from assms obtain y m d H M S where "datetime y m d H M S = Some t"
    unfolding strptime_def by (auto split: if_splits option.splits)
  then show ?thesis by (rule datetime_nonneg)
qed

subsection \<open>The last year of the calendar, and reading a row back\<close>

lemma days_before_year_lower:
  assumes "10000 \<le> year"
  shows "3652059 \<le> days_before_year year"
proof -
  define x where "x = year - 1"
  have a: "x - 3 \<le> 4 * (x div 4)"
  proof -
    have "x = 4 * (x div 4) + x mod 4" by simp
    moreover have "x mod 4 < 4" by simp
    ultimately show ?thesis by linarith
  qed
  have b: "100 * (x div 100) \<le> x"
  proof -
    have "x = 100 * (x div 100) + x mod 100" by simp
    moreover have "0 \<le> x mod 100" by simp
    ultimately show ?thesis by linarith
  qed
  have c: "x - 399 \<le> 400 * (x div 400)"
  proof -
    have "x = 400 * (x div 400) + x mod 400" by simp
    moreover have "x mod 400 < 400" by simp
    ultimately show ?thesis by linarith
  qed
  from assms have "9999 \<le> x" unfolding x_def by simp
  with a b c have "3652059 \<le> x * 365 + x div 4 - x div 100 + x div 400" by linarith
  then show ?thesis unfolding days_before_year_def Let_def x_def .
qed

lemma days_before_year_upper:
  assumes "1 \<le> year" "year \<le> 9999"
  shows "days_before_year year + (if is_leap year then 366 else 365) \<le> 3652059"
proof (cases "year = 9999")
  case True
  then show ?thesis by (simp add: days_before_year_def is_leap_def)
next
  case False
  define x where "x = year - 1"
  have a: "4 * (x div 4) \<le> x"
  proof -
    have "x = 4 * (x div 4) + x mod 4" by simp
    moreover have "0 \<le> x mod 4" by simp
    ultimately show ?thesis by linarith
  qed
  have b: "x - 99 \<le> 100 * (x div 100)"
  proof -
    have "x = 100 * (x div 100) + x mod 100" by simp
    moreover have "x mod 100 < 100" by simp
    ultimately show ?thesis by linarith
  qed
  have c: "400 * (x div 400) \<le> x"
  proof -
    have "x = 400 * (x div 400) + x mod 400" by simp
    moreover have "0 \<le> x mod 400" by simp
    ultimately show ?thesis by linarith
  qed
  from assms False have "x \<le> 9997" unfolding x_def by simp
  with a b c have "x * 365 + x div 4 - x div 100 + x div 400 + 366 \<le> 3652059" by linarith
  then have "days_before_year year + 366 \<le> 3652059"
    unfolding days_before_year_def Let_def x_def .
  then show ?thesis by simp
qed

lemma month_end:
  assumes "1 \<le> month" "month \<le> 12" "day \<le> days_in_month year month"
  shows "days_before_month year month + day \<le> (if is_leap year then 366 else 365)"
proof -
  from assms(1,2) have "month \<in> {1, 2, 3, 4, 5, 6, 7, 8, 9, 10, 11, 12}" by (rule one_to_twelve)
  with assms(3) show ?thesis
    unfolding days_before_month_def days_in_month_def
    by (auto simp: DAYS_BEFORE_MONTH_def DAYS_IN_MONTH_def split: if_splits)
qed

lemma datetime_upper:
  assumes "datetime year month day hour minute second = Some t"
  shows "t < 315537897600"
proof -
  from assms have c: "1 \<le> year" "year \<le> 9999" "1 \<le> month" "month \<le> 12"
      "day \<le> days_in_month year month" "hour \<le> 23" "minute \<le> 59" "second \<le> 59"
    and t: "t = to_instant year month day hour minute second"
    by (auto simp: datetime_def split: if_splits)
  from days_before_year_upper [OF c(1,2)] month_end [OF c(3,4,5)]
  have "ymd2ord year month day \<le> 3652059" unfolding ymd2ord_def by (auto split: if_splits)
  then have "(ymd2ord year month day - 1) * 86400 \<le> 3652058 * 86400" by simp
  with c show ?thesis unfolding t to_instant_def by linarith
qed

lemma strptime_upper:
  assumes "strptime s = Inr t"
  shows "t < 315537897600"
proof -
  from assms obtain y m d H M S where "datetime y m d H M S = Some t"
    unfolding strptime_def by (auto split: if_splits option.splits)
  then show ?thesis by (rule datetime_upper)
qed

lemma datetime_fields:
  assumes "0 \<le> t" "t < 315537897600"
  shows "datetime (year_of t) (month_of t) (day_of t) (hour_of t) (minute_of t) (second_of t)
           = Some t"
proof -
  obtain y m d where ymd: "ord2ymd (t div 86400 + 1) = (y, m, d)"
    by (cases "ord2ymd (t div 86400 + 1)") auto
  have td: "t = t div 86400 * 86400 + t mod 86400" by simp
  have tm: "0 \<le> t mod 86400" by simp
  from assms(1) have n1: "1 \<le> t div 86400 + 1"
    by (simp add: pos_imp_zdiv_nonneg_iff)
  have n2: "t div 86400 + 1 \<le> 3652059"
  proof (rule ccontr)
    assume "\<not> t div 86400 + 1 \<le> 3652059"
    then have "3652059 \<le> t div 86400" by simp
    then have "3652059 * 86400 \<le> t div 86400 * 86400" by simp
    with td tm assms(2) show False by linarith
  qed
  from ord2ymd_correct [OF ymd] n1
  have ord: "ymd2ord y m d = t div 86400 + 1"
    and v: "1 \<le> m" "m \<le> 12" "1 \<le> d" "d \<le> days_in_month y m" "1 \<le> y"
    by simp_all
  have "y \<le> 9999"
  proof (rule ccontr)
    assume "\<not> y \<le> 9999"
    then have "3652059 \<le> days_before_year y" by (intro days_before_year_lower) simp
    moreover from days_before_month_nonneg [OF v(1,2), of y] v(3)
    have "days_before_year y < ymd2ord y m d" unfolding ymd2ord_def by linarith
    ultimately show False using ord n2 by linarith
  qed
  moreover have "0 \<le> hour_of t" "hour_of t \<le> 23"
  proof -
    define u where "u = t mod 86400"
    have "0 \<le> u" "u < 86400" unfolding u_def by simp_all
    then show "0 \<le> hour_of t" "hour_of t \<le> 23"
      unfolding hour_of_def u_def [symmetric] by linarith+
  qed
  moreover have "0 \<le> minute_of t" "minute_of t \<le> 59"
  proof -
    define u where "u = t mod 3600"
    have "0 \<le> u" "u < 3600" unfolding u_def by simp_all
    then show "0 \<le> minute_of t" "minute_of t \<le> 59"
      unfolding minute_of_def u_def [symmetric] by linarith+
  qed
  moreover have "0 \<le> second_of t" "second_of t \<le> 59"
  proof -
    have "0 \<le> t mod 60" "t mod 60 < 60" by simp_all
    then show "0 \<le> second_of t" "second_of t \<le> 59"
      unfolding second_of_def by linarith+
  qed
  ultimately have "datetime y m d (hour_of t) (minute_of t) (second_of t)
      = Some (to_instant y m d (hour_of t) (minute_of t) (second_of t))"
    using v unfolding datetime_def by simp
  moreover have "year_of t = y" "month_of t = m" "day_of t = d"
    unfolding year_of_def month_of_def day_of_def ymd by simp_all
  ultimately show ?thesis using to_instant_fields [of t] by simp
qed

lemma reconstruct_time_row:
  assumes "0 \<le> t" "t < 315537897600"
  shows "reconstruct (time_row t) = Some t"
  unfolding time_row_fields [OF assms(1)] reconstruct_def
  by (simp add: datetime_fields [OF assms])

lemma sampled_instant_range:
  assumes "seg_start \<le> seg_end" and "date_range seg_start seg_end samplefreq = Inr dts"
    and "t \<in> set dts"
  shows "seg_start \<le> t" and "t \<le> seg_end"
proof -
  have f0: "samplefreq \<noteq> 0"
    using assms(2) by (auto simp: date_range_zero)
  let ?k = "(seg_end - seg_start) div samplefreq"
  from assms(2,3) date_range_eq [OF f0, of seg_start seg_end]
  obtain i where i: "i < nat (?k + 1)" and ti: "t = seg_start + int i * samplefreq"
    by auto
  show "seg_start \<le> t" "t \<le> seg_end"
  proof -
    have "seg_start \<le> t \<and> t \<le> seg_end"
    proof (cases "0 < samplefreq")
      case True
      from i have ik: "int i \<le> ?k" by simp
      have "seg_end - seg_start
          = ?k * samplefreq + (seg_end - seg_start) mod samplefreq"
        by simp
      moreover from True have "0 \<le> (seg_end - seg_start) mod samplefreq" by simp
      ultimately have "?k * samplefreq \<le> seg_end - seg_start" by linarith
      moreover from ik True have "int i * samplefreq \<le> ?k * samplefreq" by simp
      moreover from True have "0 \<le> int i * samplefreq" by simp
      ultimately show ?thesis unfolding ti by linarith
    next
      case False
      with f0 have neg: "samplefreq < 0" by simp
      from assms(1) have "0 \<le> seg_end - seg_start" by simp
      with neg have "?k \<le> 0" by (simp add: div_nonneg_neg_le0)
      with i have "i = 0" by simp
      with assms(1) show ?thesis unfolding ti by simp
    qed
    then show "seg_start \<le> t" "t \<le> seg_end" by simp_all
  qed
qed

subsection \<open>Datasets and the loop\<close>

lemma make_dataset_Inr:
  assumes "make_dataset float32 sitename lat lon datestart dateend samplefreq sample_stragety
             seg_start seg_end = Inr ds"
  shows "\<exists>dts. date_range seg_start seg_end samplefreq = Inr dts
     \<and> latitude ds = replicate (length dts) (float32 lat)
     \<and> longitude ds = replicate (length dts) (float32 lon)
     \<and> altitude ds = replicate (length dts) (float32 lon)
     \<and> time_components ds = map time_row dts
     \<and> obspack_id ds = map (\<lambda>i. ljust 200 CHR ''_''
           (id_prefix sitename datestart dateend @ str_nat i)) [0..<length dts]
     \<and> CT_sampling_strategy ds = replicate (length dts) sample_stragety
     \<and> (\<forall>i<length dts. length (id_prefix sitename datestart dateend @ str_nat i) \<le> 200)"
proof -
  from assms obtain dts ids where
    dts: "date_range seg_start seg_end samplefreq = Inr dts"
    and ids: "fill_ids (id_prefix sitename datestart dateend) (map str_nat [0..<length dts]) = Inr ids"
    and ds: "ds = \<lparr> latitude = replicate (length dts) (float32 lat),
                   longitude = replicate (length dts) (float32 lon),
                   altitude = replicate (length dts) (float32 lon),
                   time_components = map time_row dts,
                   obspack_id = ids,
                   CT_sampling_strategy = replicate (length dts) sample_stragety \<rparr>"
    unfolding make_dataset_def Let_def by (auto split: sum.splits)
  from fill_ids_Inr [OF ids]
  have "ids = map (\<lambda>i. ljust 200 CHR ''_'' (id_prefix sitename datestart dateend @ str_nat i))
            [0..<length dts]"
    and "\<forall>i<length dts. length (id_prefix sitename datestart dateend @ str_nat i) \<le> 200"
    by (simp_all add: comp_def)
  with dts ds show ?thesis by simp
qed

lemma make_dataset_fits:
  assumes "date_range seg_start seg_end samplefreq = Inr dts"
    and "\<forall>i<length dts. length (id_prefix sitename datestart dateend @ str_nat i) \<le> 200"
  shows "make_dataset float32 sitename lat lon datestart dateend samplefreq sample_stragety
           seg_start seg_end
     = Inr \<lparr> latitude = replicate (length dts) (float32 lat),
             longitude = replicate (length dts) (float32 lon),
             altitude = replicate (length dts) (float32 lon),
             time_components = map time_row dts,
             obspack_id = map (\<lambda>stri. ljust 200 CHR ''_''
                 (id_prefix sitename datestart dateend @ stri)) (map str_nat [0..<length dts]),
             CT_sampling_strategy = replicate (length dts) sample_stragety \<rparr>"
proof -
  from assms(2) have "\<forall>stri \<in> set (map str_nat [0..<length dts]).
      length (id_prefix sitename datestart dateend @ stri) \<le> 200"
    by auto
  from fill_ids_fits [OF this] show ?thesis
    unfolding make_dataset_def assms(1) sum.case Let_def by simp
qed

lemma segment_loop_written:
  assumes "(path, ds) \<in> set (snd (segment_loop float32 sitename lat lon datestart dateend
              samplefreq sample_stragety outpath segs all_files written))"
  shows "(path, ds) \<in> set written
     \<or> (\<exists>(s, e) \<in> set segs.
           make_dataset float32 sitename lat lon datestart dateend samplefreq sample_stragety
             s e = Inr ds
           \<and> path = outpath @ filename sitename samplefreq s)"
  using assms
proof (induction segs arbitrary: all_files written)
  case Nil
  then show ?case by simp
next
  case (Cons seg segs)
  obtain s e where seg: "seg = (s, e)" by (cases seg)
  show ?case
  proof (cases "make_dataset float32 sitename lat lon datestart dateend samplefreq
                  sample_stragety s e")
    case (Inl err)
    with Cons.prems seg show ?thesis by simp
  next
    case (Inr d)
    with Cons.prems seg have
      "(path, ds) \<in> set (snd (segment_loop float32 sitename lat lon datestart dateend
          samplefreq sample_stragety outpath segs
          (all_files @ [outpath @ filename sitename samplefreq s])
          (written @ [(outpath @ filename sitename samplefreq s, d)])))"
      by (simp add: Let_def)
    from Cons.IH [OF this] Inr seg show ?thesis by auto
  qed
qed

lemma written_file:
  assumes "(path, ds) \<in> set (files_written (make_ObsPack_Input_netcdfs float32 sitename lat lon
              alt datestart dateend samplefreq sample_stragety outpath))"
  shows "\<exists>start endd segs s e.
       strptime datestart = Inr start \<and> strptime dateend = Inr endd
     \<and> day_segments start endd = Inr segs \<and> (s, e) \<in> set segs
     \<and> make_dataset float32 sitename lat lon datestart dateend samplefreq sample_stragety
           s e = Inr ds
     \<and> path = outpath @ filename sitename samplefreq s"
proof -
  from assms obtain start endd segs where
    st: "strptime datestart = Inr start" and en: "strptime dateend = Inr endd"
    and segs: "day_segments start endd = Inr segs"
    and w: "(path, ds) \<in> set (snd (segment_loop float32 sitename lat lon datestart dateend
              samplefreq sample_stragety outpath segs [] []))"
    unfolding files_written_def make_ObsPack_Input_netcdfs_def
    by (auto split: sum.splits)
  from segment_loop_written [OF w] st en segs show ?thesis by auto
qed

lemma written_instants:
  assumes "(path, ds) \<in> set (files_written (make_ObsPack_Input_netcdfs float32 sitename lat lon
              alt datestart dateend samplefreq sample_stragety outpath))"
  shows "\<exists>start endd segs s e dts.
       strptime datestart = Inr start \<and> strptime dateend = Inr endd
     \<and> day_segments start endd = Inr segs \<and> (s, e) \<in> set segs
     \<and> path = outpath @ filename sitename samplefreq s
     \<and> s \<le> e \<and> 0 \<le> s \<and> date_range s e samplefreq = Inr dts
     \<and> (\<forall>t \<in> set dts. 0 \<le> t)
     \<and> latitude ds = replicate (length dts) (float32 lat)
     \<and> longitude ds = replicate (length dts) (float32 lon)
     \<and> altitude ds = replicate (length dts) (float32 lon)
     \<and> time_components ds = map time_row dts
     \<and> obspack_id ds = map (\<lambda>i. ljust 200 CHR ''_''
           (id_prefix sitename datestart dateend @ str_nat i)) [0..<length dts]
     \<and> CT_sampling_strategy ds = replicate (length dts) sample_stragety
     \<and> (\<forall>i<length dts. length (id_prefix sitename datestart dateend @ str_nat i) \<le> 200)"
proof -
  from written_file [OF assms] obtain start endd segs s e where
    st: "strptime datestart = Inr start" and en: "strptime dateend = Inr endd"
    and segs: "day_segments start endd = Inr segs" and seg: "(s, e) \<in> set segs"
    and path: "path = outpath @ filename sitename samplefreq s"
    and md: "make_dataset float32 sitename lat lon datestart dateend samplefreq sample_stragety
           s e = Inr ds"
    by blast
  from segment_bounds [OF segs seg] strptime_nonneg [OF st]
  have se: "s \<le> e" and s0: "0 \<le> s" by simp_all
  from make_dataset_Inr [OF md] obtain dts where
    dts: "date_range s e samplefreq = Inr dts"
    and rest: "latitude ds = replicate (length dts) (float32 lat)"
      "longitude ds = replicate (length dts) (float32 lon)"
      "altitude ds = replicate (length dts) (float32 lon)"
      "time_components ds = map time_row dts"
      "obspack_id ds = map (\<lambda>i. ljust 200 CHR ''_''
           (id_prefix sitename datestart dateend @ str_nat i)) [0..<length dts]"
      "CT_sampling_strategy ds = replicate (length dts) sample_stragety"
      "\<forall>i<length dts. length (id_prefix sitename datestart dateend @ str_nat i) \<le> 200"
    by blast
  have nonneg: "\<forall>t \<in> set dts. 0 \<le> t"
  proof
    fix t assume t: "t \<in> set dts"
    have f0: "samplefreq \<noteq> 0"
      using dts by (auto simp: date_range_zero)
    from dts t date_range_eq [OF f0, of s e]
    obtain i where i: "i < nat ((e - s) div samplefreq + 1)" and ti: "t = s + int i * samplefreq"
      by auto
    show "0 \<le> t"
    proof (cases "0 < samplefreq")
      case True
      then have "0 \<le> int i * samplefreq" by simp
      with s0 ti show ?thesis by simp
    next
      case False
      with f0 have neg: "samplefreq < 0" by simp
      from se have "0 \<le> e - s" by simp
      with neg have "(e - s) div samplefreq \<le> 0"
        by (simp add: div_nonneg_neg_le0)
      with i have "i = 0" by simp
      with s0 ti show ?thesis by simp
    qed
  qed
  from st en segs seg path se s0 dts nonneg rest show ?thesis by blast
qed

subsection \<open>The docstring's example, evaluated\<close>

lemma length_str_nat: "length (str_nat n) \<le> Suc n"
proof (induction n rule: str_nat.induct)
  case (1 n)
  show ?case
  proof (cases "n < 10")
    case True
    then show ?thesis by (simp add: str_nat.simps [of n])
  next
    case False
    with 1 have "length (str_nat (n div 10)) \<le> Suc (n div 10)" by simp
    moreover from False have "n div 10 < n" by simp
    ultimately show ?thesis using False by (simp add: str_nat.simps [of n])
  qed
qed

lemmas time_row_eval =
  time_row_def strftime_Y_def strftime_m_def strftime_d_def strftime_H_def strftime_M_def
  strftime_S_def year_of_def month_of_def day_of_def hour_of_def minute_of_def second_of_def
  ord2ymd_def Let_def DAYS_BEFORE_MONTH_def DAYS_IN_MONTH_def zfill_def str_nat.simps
  digit_char_def astype_int_def digit_val_def

lemma strptime_20130601: "strptime ''20130601 00:00:00'' = Inr 63505641600"
  by (simp add: strptime_def is_digit_def astype_int_def digit_val_def datetime_def
      days_in_month_def is_leap_def DAYS_IN_MONTH_def to_instant_def ymd2ord_def
      days_before_year_def days_before_month_def DAYS_BEFORE_MONTH_def)

lemma strptime_20130602: "strptime ''20130602 00:00:00'' = Inr 63505728000"
  by (simp add: strptime_def is_digit_def astype_int_def digit_val_def datetime_def
      days_in_month_def is_leap_def DAYS_IN_MONTH_def to_instant_def ymd2ord_def
      days_before_year_def days_before_month_def DAYS_BEFORE_MONTH_def)

lemma strptime_20130603: "strptime ''20130603 00:00:00'' = Inr 63505814400"
  by (simp add: strptime_def is_digit_def astype_int_def digit_val_def datetime_def
      days_in_month_def is_leap_def DAYS_IN_MONTH_def to_instant_def ymd2ord_def
      days_before_year_def days_before_month_def DAYS_BEFORE_MONTH_def)

lemma upt_0_2: "[0..<2] = [0, 1]"
  by code_simp

lemma upt_0_24:
  "[0..<24] = [0, 1, 2, 3, 4, 5, 6, 7, 8, 9, 10, 11, 12, 13, 14, 15, 16, 17, 18, 19,
               20, 21, 22, 23]"
  by code_simp

lemma segments_one_day:
  "day_segments 63505641600 63505728000 = Inr [(63505641600, 63505727999)]"
  by (simp add: day_segments_eq day_count_eq)

lemma segments_two_days:
  "day_segments 63505641600 63505814400
     = Inr [(63505641600, 63505727999), (63505728000, 63505814399)]"
  by (simp add: day_segments_eq day_count_eq upt_0_2)

lemma hourly_instants:
  "date_range 63505641600 63505727999 3600
     = Inr (map (\<lambda>i. 63505641600 + int i * 3600) [0..<24])"
  by (simp add: date_range_eq)

lemma hourly_rows:
  "map time_row (map (\<lambda>i. 63505641600 + int i * 3600) [0..<24])
     = [[2013, 6, 1, 0, 0, 0], [2013, 6, 1, 1, 0, 0], [2013, 6, 1, 2, 0, 0],
        [2013, 6, 1, 3, 0, 0], [2013, 6, 1, 4, 0, 0], [2013, 6, 1, 5, 0, 0],
        [2013, 6, 1, 6, 0, 0], [2013, 6, 1, 7, 0, 0], [2013, 6, 1, 8, 0, 0],
        [2013, 6, 1, 9, 0, 0], [2013, 6, 1, 10, 0, 0], [2013, 6, 1, 11, 0, 0],
        [2013, 6, 1, 12, 0, 0], [2013, 6, 1, 13, 0, 0], [2013, 6, 1, 14, 0, 0],
        [2013, 6, 1, 15, 0, 0], [2013, 6, 1, 16, 0, 0], [2013, 6, 1, 17, 0, 0],
        [2013, 6, 1, 18, 0, 0], [2013, 6, 1, 19, 0, 0], [2013, 6, 1, 20, 0, 0],
        [2013, 6, 1, 21, 0, 0], [2013, 6, 1, 22, 0, 0], [2013, 6, 1, 23, 0, 0]]"
  unfolding upt_0_24 by (simp add: time_row_eval)

lemma filename_20130601:
  "filename ''SOAS-Ground'' 3600 63505641600 = ''obspack_SOAS-Ground_freq3600s.2013-06-01.nc''"
  by (simp add: filename_def str_int_def str_Timestamp_def split_first_def time_row_eval)

lemma filename_negative:
  "filename ''SOAS-Ground'' (- 3600) 63505641600
     = ''obspack_SOAS-Ground_freq-3600s.2013-06-01.nc''"
  by (simp add: filename_def str_int_def str_Timestamp_def split_first_def time_row_eval)

lemma soas_prefix:
  "id_prefix ''SOAS-Ground'' ''20130601 00:00:00'' ''20130602 00:00:00''
     = ''SOAS-Ground_from_20130601_to_20130602_n''"
  by (simp add: id_prefix_def split_first_def)

lemma soas_ids:
  "fill_ids ''SOAS-Ground_from_20130601_to_20130602_n'' (map str_nat [0..<24])
     = Inr (map (\<lambda>i. ljust 200 CHR ''_'' (''SOAS-Ground_from_20130601_to_20130602_n'' @ str_nat i))
              [0..<24])"
proof -
  have "\<forall>stri \<in> set (map str_nat [0..<24]).
          length (''SOAS-Ground_from_20130601_to_20130602_n'' @ stri) \<le> 200"
  proof
    fix stri assume "stri \<in> set (map str_nat [0..<24])"
    then obtain i where "i < 24" "stri = str_nat i" by auto
    with length_str_nat [of i] show "length (''SOAS-Ground_from_20130601_to_20130602_n'' @ stri) \<le> 200"
      by simp
  qed
  from fill_ids_fits [OF this] show ?thesis by (simp add: comp_def)
qed

lemma soas_dataset:
  "make_dataset float32 ''SOAS-Ground'' lat lon ''20130601 00:00:00'' ''20130602 00:00:00''
       3600 sample_stragety 63505641600 63505727999
     = Inr \<lparr> latitude = replicate 24 (float32 lat),
             longitude = replicate 24 (float32 lon),
             altitude = replicate 24 (float32 lon),
             time_components =
               [[2013, 6, 1, 0, 0, 0], [2013, 6, 1, 1, 0, 0], [2013, 6, 1, 2, 0, 0],
                [2013, 6, 1, 3, 0, 0], [2013, 6, 1, 4, 0, 0], [2013, 6, 1, 5, 0, 0],
                [2013, 6, 1, 6, 0, 0], [2013, 6, 1, 7, 0, 0], [2013, 6, 1, 8, 0, 0],
                [2013, 6, 1, 9, 0, 0], [2013, 6, 1, 10, 0, 0], [2013, 6, 1, 11, 0, 0],
                [2013, 6, 1, 12, 0, 0], [2013, 6, 1, 13, 0, 0], [2013, 6, 1, 14, 0, 0],
                [2013, 6, 1, 15, 0, 0], [2013, 6, 1, 16, 0, 0], [2013, 6, 1, 17, 0, 0],
                [2013, 6, 1, 18, 0, 0], [2013, 6, 1, 19, 0, 0], [2013, 6, 1, 20, 0, 0],
                [2013, 6, 1, 21, 0, 0], [2013, 6, 1, 22, 0, 0], [2013, 6, 1, 23, 0, 0]],
             obspack_id =
               map (\<lambda>i. ljust 200 CHR ''_''
                      (''SOAS-Ground_from_20130601_to_20130602_n'' @ str_nat i)) [0..<24],
             CT_sampling_strategy = replicate 24 sample_stragety \<rparr>"
  unfolding make_dataset_def hourly_instants sum.case Let_def soas_prefix length_map
    length_upt diff_zero soas_ids hourly_rows ..

lemma soas_example:
  "make_ObsPack_Input_netcdfs float32 ''SOAS-Ground'' lat lon alt ''20130601 00:00:00''
       ''20130602 00:00:00'' 3600 sample_stragety outpath
     = (Inr [outpath @ ''obspack_SOAS-Ground_freq3600s.2013-06-01.nc''],
        [(outpath @ ''obspack_SOAS-Ground_freq3600s.2013-06-01.nc'',
          \<lparr> latitude = replicate 24 (float32 lat),
            longitude = replicate 24 (float32 lon),
            altitude = replicate 24 (float32 lon),
            time_components =
              [[2013, 6, 1, 0, 0, 0], [2013, 6, 1, 1, 0, 0], [2013, 6, 1, 2, 0, 0],
               [2013, 6, 1, 3, 0, 0], [2013, 6, 1, 4, 0, 0], [2013, 6, 1, 5, 0, 0],
               [2013, 6, 1, 6, 0, 0], [2013, 6, 1, 7, 0, 0], [2013, 6, 1, 8, 0, 0],
               [2013, 6, 1, 9, 0, 0], [2013, 6, 1, 10, 0, 0], [2013, 6, 1, 11, 0, 0],
               [2013, 6, 1, 12, 0, 0], [2013, 6, 1, 13, 0, 0], [2013, 6, 1, 14, 0, 0],
               [2013, 6, 1, 15, 0, 0], [2013, 6, 1, 16, 0, 0], [2013, 6, 1, 17, 0, 0],
               [2013, 6, 1, 18, 0, 0], [2013, 6, 1, 19, 0, 0], [2013, 6, 1, 20, 0, 0],
               [2013, 6, 1, 21, 0, 0], [2013, 6, 1, 22, 0, 0], [2013, 6, 1, 23, 0, 0]],
            obspack_id =
              map (\<lambda>i. ljust 200 CHR ''_''
                     (''SOAS-Ground_from_20130601_to_20130602_n'' @ str_nat i)) [0..<24],
            CT_sampling_strategy = replicate 24 sample_stragety \<rparr>)])"
  unfolding make_ObsPack_Input_netcdfs_def strptime_20130601 strptime_20130602 sum.case
    segments_one_day segment_loop.simps soas_dataset Let_def filename_20130601
  by simp

lemma soas_example_negative:
  "make_ObsPack_Input_netcdfs float32 ''SOAS-Ground'' lat lon alt ''20130601 00:00:00''
       ''20130602 00:00:00'' (- 3600) sample_stragety outpath
     = (Inr [outpath @ ''obspack_SOAS-Ground_freq-3600s.2013-06-01.nc''],
        [(outpath @ ''obspack_SOAS-Ground_freq-3600s.2013-06-01.nc'',
          \<lparr> latitude = [], longitude = [], altitude = [], time_components = [],
            obspack_id = [], CT_sampling_strategy = [] \<rparr>)])"
proof -
  have dr: "date_range 63505641600 63505727999 (- 3600) = Inr []"
    by (simp add: date_range_eq)
  have ds: "make_dataset float32 ''SOAS-Ground'' lat lon ''20130601 00:00:00''
       ''20130602 00:00:00'' (- 3600) sample_stragety 63505641600 63505727999
     = Inr \<lparr> latitude = [], longitude = [], altitude = [], time_components = [],
            obspack_id = [], CT_sampling_strategy = [] \<rparr>"
    unfolding make_dataset_def dr by simp
  show ?thesis
    unfolding make_ObsPack_Input_netcdfs_def strptime_20130601 strptime_20130602 sum.case
      segments_one_day segment_loop.simps ds Let_def filename_negative
    by simp
qed

subsection \<open>Runs that write no file, and the first file of a run\<close>

lemma same_instant:
  assumes "strptime datestart = Inr t"
  shows "make_ObsPack_Input_netcdfs float32 sitename lat lon alt datestart datestart samplefreq
           sample_stragety outpath = (Inl IndexError, [])"
  unfolding make_ObsPack_Input_netcdfs_def assms
  by (simp add: day_segments_empty)

lemma day_segments_Inl:
  assumes "day_segments start endd = Inl err"
  shows "err = IndexError"
proof (cases "start < endd")
  case True
  from day_segments_eq [OF True] assms show ?thesis by simp
next
  case False
  then have "day_segments start endd = Inl IndexError"
    by (intro day_segments_empty) simp
  with assms show ?thesis by simp
qed

lemma day_segments_nonempty:
  assumes "day_segments start endd = Inr segs"
  shows "segs \<noteq> []"
proof -
  from day_count_pos(1) [OF day_segments_Inr(1) [OF assms]]
  have "0 < nat (day_count start endd)" by simp
  with day_segments_Inr(2) [OF assms] show ?thesis by simp
qed

lemma length_day_segments:
  assumes "day_segments start endd = Inr segs"
  shows "length segs = nat (day_count start endd)"
  using day_segments_Inr(2) [OF assms] by simp

lemma soas_fits:
  "\<forall>i<24. length (id_prefix ''SOAS-Ground'' ''20130601 00:00:00'' ''20130602 00:00:00''
              @ str_nat i) \<le> 200"
proof (intro allI impI)
  fix i :: nat assume "i < 24"
  with length_str_nat [of i] show "length (id_prefix ''SOAS-Ground'' ''20130601 00:00:00''
      ''20130602 00:00:00'' @ str_nat i) \<le> 200"
    unfolding soas_prefix by simp
qed

lemma soas_written:
  "files_written (make_ObsPack_Input_netcdfs float32 ''SOAS-Ground'' lat lon alt
       ''20130601 00:00:00'' ''20130602 00:00:00'' 3600 sample_stragety outpath) \<noteq> []"
  unfolding soas_example files_written_def by simp

lemma hd_written:
  assumes "files_written outcome \<noteq> []"
  shows "(fst (hd (files_written outcome)), snd (hd (files_written outcome)))
           \<in> set (files_written outcome)"
  using assms by simp

lemma ids_differ:
  "ljust 200 CHR ''_'' (''SOAS-Ground_from_20130601_to_20130602_n'' @ str_nat 0)
     \<noteq> ljust 200 CHR ''_'' (''SOAS-Ground'' @ ''_from_'' @ split_first ''20130601 00:00:00''
           @ ''_to_'' @ split_first ''20130602 00:00:00'' @ str_nat 0)"
  by code_simp

section \<open>The claims\<close>

text \<open>
  C1, as amended. The docstring's site, with the window from 2013-06-01 00:00:00 to
  2013-06-02 00:00:00, a frequency of 3600 seconds and strategy 2, gives exactly one file,
  not two: \<open>obspack_SOAS-Ground_freq3600s.2013-06-01.nc\<close>, with the 24 hourly records
  of the first day from 00:00:00 to 23:00:00. The window is one whole day, so the day
  count is 1 and the instant 2013-06-02 00:00:00 gets no file of its own.
\<close>

theorem C1_example_one_file:
  "returned (make_ObsPack_Input_netcdfs float32 ''SOAS-Ground'' (32.903281 :: real)
       (- 87.249942) 125 ''20130601 00:00:00'' ''20130602 00:00:00'' 3600 2 outpath)
     = Inr [outpath @ ''obspack_SOAS-Ground_freq3600s.2013-06-01.nc'']
   \<and> map fst (files_written (make_ObsPack_Input_netcdfs float32 ''SOAS-Ground''
       (32.903281 :: real) (- 87.249942) 125 ''20130601 00:00:00'' ''20130602 00:00:00''
       3600 2 outpath))
     = [outpath @ ''obspack_SOAS-Ground_freq3600s.2013-06-01.nc'']
   \<and> map (\<lambda>file. time_components (snd file)) (files_written (make_ObsPack_Input_netcdfs
       float32 ''SOAS-Ground'' (32.903281 :: real) (- 87.249942) 125 ''20130601 00:00:00''
       ''20130602 00:00:00'' 3600 2 outpath))
     = [[[2013, 6, 1, 0, 0, 0], [2013, 6, 1, 1, 0, 0], [2013, 6, 1, 2, 0, 0],
         [2013, 6, 1, 3, 0, 0], [2013, 6, 1, 4, 0, 0], [2013, 6, 1, 5, 0, 0],
         [2013, 6, 1, 6, 0, 0], [2013, 6, 1, 7, 0, 0], [2013, 6, 1, 8, 0, 0],
         [2013, 6, 1, 9, 0, 0], [2013, 6, 1, 10, 0, 0], [2013, 6, 1, 11, 0, 0],
         [2013, 6, 1, 12, 0, 0], [2013, 6, 1, 13, 0, 0], [2013, 6, 1, 14, 0, 0],
         [2013, 6, 1, 15, 0, 0], [2013, 6, 1, 16, 0, 0], [2013, 6, 1, 17, 0, 0],
         [2013, 6, 1, 18, 0, 0], [2013, 6, 1, 19, 0, 0], [2013, 6, 1, 20, 0, 0],
         [2013, 6, 1, 21, 0, 0], [2013, 6, 1, 22, 0, 0], [2013, 6, 1, 23, 0, 0]]]"
  unfolding soas_example returned_def files_written_def by simp

theorem C1_two_files_counterexample:
  "returned (make_ObsPack_Input_netcdfs id ''SOAS-Ground'' (32.903281 :: real)
       (- 87.249942) 125 ''20130601 00:00:00'' ''20130602 00:00:00'' 3600 2 ''out/'')
     = Inr [''out/obspack_SOAS-Ground_freq3600s.2013-06-01.nc'']
   \<and> length (files_written (make_ObsPack_Input_netcdfs id ''SOAS-Ground''
       (32.903281 :: real) (- 87.249942) 125 ''20130601 00:00:00'' ''20130602 00:00:00''
       3600 2 ''out/'')) \<noteq> 2"
  unfolding soas_example returned_def files_written_def by simp

text \<open>
  C2, as amended. For every window whose end equals its start, the day count is 0: no day
  segment is kept and no output file is written.
\<close>

theorem C2_same_instant_no_file:
  assumes "strptime datestart = Inr t"
  shows "day_count t t = 0
    \<and> files_written (make_ObsPack_Input_netcdfs float32 sitename lat lon alt datestart
         datestart samplefreq sample_stragety outpath) = []"
  unfolding same_instant [OF assms] files_written_def
  by (simp add: day_count_eq)

theorem C2_same_instant_witness:
  "day_count 63505641600 63505641600 = 0
    \<and> files_written (make_ObsPack_Input_netcdfs id ''SOAS-Ground'' (32.903281 :: real)
         (- 87.249942) 125 ''20130601 00:00:00'' ''20130601 00:00:00'' 3600 2 ''out/'') = []"
  using C2_same_instant_no_file [OF strptime_20130601] by simp

theorem C2_one_file_counterexample:
  "returned (make_ObsPack_Input_netcdfs id ''SOAS-Ground'' (32.903281 :: real)
       (- 87.249942) 125 ''20130601 00:00:00'' ''20130601 00:00:00'' 3600 2 ''out/'')
     = Inl IndexError
   \<and> length (files_written (make_ObsPack_Input_netcdfs id ''SOAS-Ground''
       (32.903281 :: real) (- 87.249942) 125 ''20130601 00:00:00'' ''20130601 00:00:00''
       3600 2 ''out/'')) \<noteq> 1"
  unfolding same_instant [OF strptime_20130601] returned_def files_written_def by simp

text \<open>
  C3. In every file written, every record of the altitude variable is the longitude
  argument, converted to a 32-bit float; the altitude argument is not used, so another
  altitude gives the same outcome.
\<close>

theorem C3_altitude_is_longitude:
  assumes "(path, ds) \<in> set (files_written (make_ObsPack_Input_netcdfs float32 sitename lat
              lon alt datestart dateend samplefreq sample_stragety outpath))"
  shows "altitude ds = replicate (length (time_components ds)) (float32 lon)
    \<and> make_ObsPack_Input_netcdfs float32 sitename lat lon alt datestart dateend samplefreq
          sample_stragety outpath
      = make_ObsPack_Input_netcdfs float32 sitename lat lon alt' datestart dateend samplefreq
          sample_stragety outpath"
proof -
  from written_instants [OF assms] obtain dts where
    "altitude ds = replicate (length dts) (float32 lon)" "time_components ds = map time_row dts"
    by blast
  then have "altitude ds = replicate (length (time_components ds)) (float32 lon)" by simp
  then show ?thesis unfolding make_ObsPack_Input_netcdfs_def by simp
qed

theorem C3_altitude_witness:
  "altitude (snd (hd (files_written (make_ObsPack_Input_netcdfs id ''SOAS-Ground''
       (32.903281 :: real) (- 87.249942) 125 ''20130601 00:00:00'' ''20130602 00:00:00''
       3600 2 ''out/''))))
     = replicate 24 (- 87.249942)"
  using C3_altitude_is_longitude [OF hd_written [OF soas_written],
      of id "32.903281 :: real" "- 87.249942" 125 2 "''out/''" 125]
  unfolding soas_example files_written_def by simp

text \<open>
  C4, as amended. In every file written, the identifier of record \<open>i\<close> (counted from 0) is
  \<open>prefix + str(i)\<close> padded on the right with \<open>_\<close> to exactly 200 characters, where
  \<open>prefix = sitename + "_from_" + start_date + "_to_" + end_date + "_n"\<close>: the prefix
  ends with \<open>_n\<close>. The dates are those of the original window, so every segment and
  record has the same prefix.
\<close>

theorem C4_identifier_format:
  assumes "(path, ds) \<in> set (files_written (make_ObsPack_Input_netcdfs float32 sitename lat
              lon alt datestart dateend samplefreq sample_stragety outpath))"
  shows "\<forall>i<length (obspack_id ds).
           obspack_id ds ! i
             = ljust 200 CHR ''_'' (sitename @ ''_from_'' @ split_first datestart @ ''_to_''
                 @ split_first dateend @ ''_n'' @ str_nat i)
         \<and> length (obspack_id ds ! i) = 200"
proof -
  from written_instants [OF assms] obtain dts :: "instant list" where
    ids: "obspack_id ds = map (\<lambda>i. ljust 200 CHR ''_''
           (id_prefix sitename datestart dateend @ str_nat i)) [0..<length dts]"
    and fit: "\<forall>i<length dts. length (id_prefix sitename datestart dateend @ str_nat i) \<le> 200"
    by blast
  show ?thesis
  proof (intro allI impI)
    fix i assume "i < length (obspack_id ds)"
    then have i: "i < length dts" unfolding ids by simp
    then have nth: "obspack_id ds ! i
        = ljust 200 CHR ''_'' (id_prefix sitename datestart dateend @ str_nat i)"
      unfolding ids by simp
    from fit i have "length (id_prefix sitename datestart dateend @ str_nat i) \<le> 200"
      by simp
    then have "length (obspack_id ds ! i) = 200"
      unfolding nth length_ljust by simp
    with nth show "obspack_id ds ! i
             = ljust 200 CHR ''_'' (sitename @ ''_from_'' @ split_first datestart @ ''_to_''
                 @ split_first dateend @ ''_n'' @ str_nat i)
         \<and> length (obspack_id ds ! i) = 200"
      unfolding id_prefix_def by simp
  qed
qed

theorem C4_identifier_witness:
  "obspack_id (snd (hd (files_written (make_ObsPack_Input_netcdfs id ''SOAS-Ground''
       (32.903281 :: real) (- 87.249942) 125 ''20130601 00:00:00'' ''20130602 00:00:00''
       3600 2 ''out/'')))) ! 23
     = ljust 200 CHR ''_'' (''SOAS-Ground'' @ ''_from_'' @ split_first ''20130601 00:00:00''
         @ ''_to_'' @ split_first ''20130602 00:00:00'' @ ''_n'' @ str_nat 23)
   \<and> length (obspack_id (snd (hd (files_written (make_ObsPack_Input_netcdfs id
       ''SOAS-Ground'' (32.903281 :: real) (- 87.249942) 125 ''20130601 00:00:00''
       ''20130602 00:00:00'' 3600 2 ''out/'')))) ! 23) = 200"
proof -
  have "23 < length (obspack_id (snd (hd (files_written (make_ObsPack_Input_netcdfs id
       ''SOAS-Ground'' (32.903281 :: real) (- 87.249942) 125 ''20130601 00:00:00''
       ''20130602 00:00:00'' 3600 2 ''out/'')))))"
    unfolding soas_example files_written_def by simp
  with C4_identifier_format [OF hd_written [OF soas_written],
      of id "32.903281 :: real" "- 87.249942" 125 2 "''out/''"]
  show ?thesis by blast
qed

theorem C4_prefix_counterexample:
  "obspack_id (snd (hd (files_written (make_ObsPack_Input_netcdfs id ''SOAS-Ground''
       (32.903281 :: real) (- 87.249942) 125 ''20130601 00:00:00'' ''20130602 00:00:00''
       3600 2 ''out/'')))) ! 0
     \<noteq> ljust 200 CHR ''_'' (''SOAS-Ground'' @ ''_from_'' @ split_first ''20130601 00:00:00''
         @ ''_to_'' @ split_first ''20130602 00:00:00'' @ str_nat 0)"
proof -
  have "obspack_id (snd (hd (files_written (make_ObsPack_Input_netcdfs id ''SOAS-Ground''
       (32.903281 :: real) (- 87.249942) 125 ''20130601 00:00:00'' ''20130602 00:00:00''
       3600 2 ''out/'')))) ! 0
     = ljust 200 CHR ''_'' (''SOAS-Ground_from_20130601_to_20130602_n'' @ str_nat 0)"
    unfolding soas_example files_written_def by simp
  with ids_differ show ?thesis by simp
qed

text \<open>
  C5. For every segment in which every \<open>prefix + str(i)\<close> fits in 200 characters, the
  dataset is built, it has one identifier per sampled instant, and its identifiers are
  pairwise distinct and each exactly 200 characters long.
\<close>

theorem C5_identifiers_distinct:
  assumes "date_range seg_start seg_end samplefreq = Inr dts"
    and "\<forall>i<length dts. length (id_prefix sitename datestart dateend @ str_nat i) \<le> 200"
  shows "\<exists>ds. make_dataset float32 sitename lat lon datestart dateend samplefreq
                sample_stragety seg_start seg_end = Inr ds
     \<and> length (obspack_id ds) = length dts
     \<and> distinct (obspack_id ds)
     \<and> (\<forall>x \<in> set (obspack_id ds). length x = 200)"
proof -
  let ?p = "id_prefix sitename datestart dateend"
  let ?row = "\<lambda>stri. ljust 200 CHR ''_'' (?p @ stri)"
  let ?ids = "map ?row (map str_nat [0..<length dts])"
  from assms(2) have "\<forall>stri \<in> set (map str_nat [0..<length dts]). length (?p @ stri) \<le> 200"
    by auto
  from fill_ids_fits [OF this]
  have ids: "fill_ids ?p (map str_nat [0..<length dts]) = Inr ?ids" .
  have inj: "inj_on (\<lambda>i. ?row (str_nat i)) (set [0..<length dts])"
    by (rule inj_onI) (rule ljust_inj)
  have "distinct (map (\<lambda>i. ?row (str_nat i)) [0..<length dts])"
    using inj by (simp add: distinct_map)
  then have dist: "distinct ?ids" by (simp add: comp_def)
  have len: "\<forall>x \<in> set ?ids. length x = 200"
    using assms(2) by (auto simp: length_ljust)
  show ?thesis
    unfolding make_dataset_def assms(1) sum.case Let_def ids
    using dist len by simp
qed

theorem C5_identifiers_witness:
  "\<exists>ds. make_dataset id ''SOAS-Ground'' (32.903281 :: real) (- 87.249942)
            ''20130601 00:00:00'' ''20130602 00:00:00'' 3600 2 63505641600 63505727999 = Inr ds
     \<and> length (obspack_id ds) = 24
     \<and> distinct (obspack_id ds)
     \<and> (\<forall>x \<in> set (obspack_id ds). length x = 200)"
  using C5_identifiers_distinct [OF hourly_instants, of "''SOAS-Ground''"
      "''20130601 00:00:00''" "''20130602 00:00:00''" id "32.903281 :: real" "- 87.249942" 2]
    soas_fits
  by simp

text \<open>
  C6. For every segment and every positive sampling frequency, the number of records
  generated for the segment is \<open>floor((segment_end - segment_start) / frequency) + 1\<close>:
  that many instants are sampled, and the dataset built for the segment (it is built
  when the identifiers of that many records fit in 200 characters) has that many rows
  of time components and of identifiers.
\<close>

theorem C6_record_count:
  assumes "day_segments start endd = Inr segs" and "(seg_start, seg_end) \<in> set segs"
    and "0 < samplefreq"
    and "\<forall>i<nat ((seg_end - seg_start) div samplefreq + 1).
           length (id_prefix sitename datestart dateend @ str_nat i) \<le> 200"
  shows "\<exists>dts ds. date_range seg_start seg_end samplefreq = Inr dts
     \<and> int (length dts) = (seg_end - seg_start) div samplefreq + 1
     \<and> make_dataset float32 sitename lat lon datestart dateend samplefreq
           sample_stragety seg_start seg_end = Inr ds
     \<and> time_components ds = map time_row dts
     \<and> int (length (time_components ds)) = (seg_end - seg_start) div samplefreq + 1
     \<and> int (length (obspack_id ds)) = (seg_end - seg_start) div samplefreq + 1"
proof -
  let ?k = "(seg_end - seg_start) div samplefreq"
  let ?dts = "map (\<lambda>i. seg_start + int i * samplefreq) [0..<nat (?k + 1)]"
  from assms(3) have f0: "samplefreq \<noteq> 0" by simp
  from segment_bounds(2) [OF assms(1,2)] have "0 \<le> seg_end - seg_start" by simp
  with assms(3) have "0 \<le> ?k" by (simp add: pos_imp_zdiv_nonneg_iff)
  then have len: "int (length ?dts) = ?k + 1" by simp
  have dr: "date_range seg_start seg_end samplefreq = Inr ?dts"
    by (rule date_range_eq [OF f0])
  from assms(4) have fits: "\<forall>i<length ?dts.
      length (id_prefix sitename datestart dateend @ str_nat i) \<le> 200"
    by simp
  note md = make_dataset_fits [OF dr fits, of float32 lat lon sample_stragety]
  show ?thesis
    unfolding md dr using len by simp
qed

theorem C6_record_count_witness:
  "\<exists>dts ds. date_range 63505641600 63505727999 3600 = Inr dts
     \<and> int (length dts) = 24
     \<and> make_dataset id ''SOAS-Ground'' (32.903281 :: real) (- 87.249942)
           ''20130601 00:00:00'' ''20130602 00:00:00'' 3600 2 63505641600 63505727999 = Inr ds
     \<and> time_components ds = map time_row dts
     \<and> int (length (time_components ds)) = 24
     \<and> int (length (obspack_id ds)) = 24"
  using C6_record_count [OF segments_one_day, of 63505641600 63505727999 3600
      "''SOAS-Ground''" "''20130601 00:00:00''" "''20130602 00:00:00''" id
      "32.903281 :: real" "- 87.249942" 2]
    soas_fits
  by simp

text \<open>
  C7, as amended. The function has no check of the sampling frequency and no
  \<open>InvalidConfiguration\<close> error. A frequency of zero makes the call fail before any file
  is written: the first expansion of a segment divides by the stride, unless the dates
  or the segments have failed before. A negative frequency is not rejected.
\<close>

theorem C7_zero_frequency_fails:
  "returned (make_ObsPack_Input_netcdfs float32 sitename lat lon alt datestart dateend 0
       sample_stragety outpath)
     \<in> {Inl ValueError_strptime, Inl IndexError, Inl ZeroDivisionError}
   \<and> files_written (make_ObsPack_Input_netcdfs float32 sitename lat lon alt datestart
       dateend 0 sample_stragety outpath) = []"
proof (cases "strptime datestart")
  case (Inl err)
  then have "err = ValueError_strptime"
    unfolding strptime_def by (auto split: if_splits option.splits)
  with Inl show ?thesis
    unfolding make_ObsPack_Input_netcdfs_def returned_def files_written_def by simp
next
  case st: (Inr start)
  show ?thesis
  proof (cases "strptime dateend")
    case (Inl err)
    then have "err = ValueError_strptime"
      unfolding strptime_def by (auto split: if_splits option.splits)
    with st Inl show ?thesis
      unfolding make_ObsPack_Input_netcdfs_def returned_def files_written_def by simp
  next
    case en: (Inr endd)
    show ?thesis
    proof (cases "day_segments start endd")
      case (Inl err)
      with day_segments_Inl [OF Inl] st en show ?thesis
        unfolding make_ObsPack_Input_netcdfs_def returned_def files_written_def by simp
    next
      case (Inr segs)
      from day_segments_nonempty [OF Inr] obtain s e rest where segs: "segs = (s, e) # rest"
        by (cases segs) auto
      have "make_dataset float32 sitename lat lon datestart dateend 0 sample_stragety s e
          = Inl ZeroDivisionError"
        unfolding make_dataset_def date_range_zero by simp
      with st en Inr segs show ?thesis
        unfolding make_ObsPack_Input_netcdfs_def returned_def files_written_def by simp
    qed
  qed
qed

theorem C7_zero_frequency_witness:
  "returned (make_ObsPack_Input_netcdfs id ''SOAS-Ground'' (32.903281 :: real) (- 87.249942)
       125 ''20130601 00:00:00'' ''20130602 00:00:00'' 0 2 ''out/'')
     \<in> {Inl ValueError_strptime, Inl IndexError, Inl ZeroDivisionError}
   \<and> files_written (make_ObsPack_Input_netcdfs id ''SOAS-Ground'' (32.903281 :: real)
       (- 87.249942) 125 ''20130601 00:00:00'' ''20130602 00:00:00'' 0 2 ''out/'') = []"
  by (rule C7_zero_frequency_fails)

theorem C7_negative_frequency_counterexample:
  "make_ObsPack_Input_netcdfs id ''SOAS-Ground'' (32.903281 :: real) (- 87.249942) 125
       ''20130601 00:00:00'' ''20130602 00:00:00'' (- 3600) 2 ''out/''
     = (Inr [''out/obspack_SOAS-Ground_freq-3600s.2013-06-01.nc''],
        [(''out/obspack_SOAS-Ground_freq-3600s.2013-06-01.nc'',
          \<lparr> latitude = [], longitude = [], altitude = [], time_components = [],
            obspack_id = [], CT_sampling_strategy = [] \<rparr>)])"
  unfolding soas_example_negative by simp

text \<open>
  C8, as amended. For every window producing two or more segments, the segments are
  contiguous and do not overlap: each segment's end plus 1 second is the next segment's
  start, and no segment ends before it starts. The first segment starts at the window's
  start. The last segment ends at the window's end when the window is not a whole number
  of days, and one second before the window's end when it is: the segments then tile
  the window without its last instant.
\<close>

theorem C8_segments_contiguous:
  assumes "day_segments start endd = Inr segs" and "2 \<le> length segs"
  shows "(\<forall>i. Suc i < length segs \<longrightarrow> snd (segs ! i) + 1 = fst (segs ! Suc i))
     \<and> (\<forall>i<length segs. fst (segs ! i) \<le> snd (segs ! i))
     \<and> fst (hd segs) = start
     \<and> snd (last segs) = (if (endd - start) mod 86400 = 0 then endd - 1 else endd)"
proof -
  let ?d = "endd - start"
  define n where "n = nat (day_count start endd)"
  define q where "q = ?d div 86400"
  define rm where "rm = ?d mod 86400"
  define F where "F = (\<lambda>i. (start + int i * 86400,
      if rm \<noteq> 0 \<and> Suc i = n then endd else start + int i * 86400 + 86399))"
  note lt = day_segments_Inr(1) [OF assms(1)]
  have segs: "segs = map F [0..<n]"
    using day_segments_Inr(2) [OF assms(1)] unfolding F_def n_def rm_def .
  then have len: "length segs = n" by simp
  with assms(2) have n2: "2 \<le> n" by simp
  have endd: "endd = start + q * 86400 + rm" unfolding q_def rm_def by simp
  have cnt: "int n = (if rm \<noteq> 0 then q + 1 else q)"
    using day_count_pos(1) [OF lt] unfolding n_def day_count_eq q_def rm_def by simp
  have nth: "segs ! i = F i" if "i < n" for i
    using that unfolding segs by simp
  have contiguous: "\<forall>i. Suc i < length segs \<longrightarrow> snd (segs ! i) + 1 = fst (segs ! Suc i)"
  proof (intro allI impI)
    fix i assume "Suc i < length segs"
    then have i: "Suc i < n" unfolding len .
    then have "segs ! i = F i" "segs ! Suc i = F (Suc i)" by (simp_all add: nth)
    moreover from i have "Suc i \<noteq> n" by simp
    ultimately show "snd (segs ! i) + 1 = fst (segs ! Suc i)"
      unfolding F_def by simp
  qed
  have ordered: "\<forall>i<length segs. fst (segs ! i) \<le> snd (segs ! i)"
  proof (intro allI impI)
    fix i assume "i < length segs"
    then have "segs ! i \<in> set segs" by simp
    then have "(fst (segs ! i), snd (segs ! i)) \<in> set segs" by simp
    from segment_bounds(2) [OF assms(1) this] show "fst (segs ! i) \<le> snd (segs ! i)" .
  qed
  have first: "fst (hd segs) = start"
  proof -
    from n2 have "segs \<noteq> []" unfolding segs by simp
    then have "hd segs = segs ! 0" by (rule hd_conv_nth)
    also from n2 have "\<dots> = F 0" by (simp add: nth)
    finally show ?thesis unfolding F_def by simp
  qed
  have final: "snd (last segs) = (if rm = 0 then endd - 1 else endd)"
  proof -
    from n2 have "segs \<noteq> []" unfolding segs by simp
    then have "last segs = segs ! (length segs - 1)" by (rule last_conv_nth)
    also from n2 have "\<dots> = F (n - 1)" unfolding len by (simp add: nth)
    finally have l: "last segs = F (n - 1)" .
    from n2 have sn: "Suc (n - 1) = n" by simp
    show ?thesis
    proof (cases "rm = 0")
      case True
      with cnt n2 have "int (n - 1) = q - 1" by simp
      with True endd show ?thesis unfolding l F_def by simp
    next
      case False
      with sn show ?thesis unfolding l F_def by simp
    qed
  qed
  from contiguous ordered first final show ?thesis unfolding rm_def by simp
qed

theorem C8_segments_witness:
  "snd ([(63505641600, 63505727999), (63505728000, 63505814399)] ! 0) + 1
     = fst ([(63505641600, 63505727999), (63505728000, 63505814399 :: int)] ! 1)
   \<and> fst (hd [(63505641600, 63505727999), (63505728000, 63505814399)]) = (63505641600 :: int)
   \<and> snd (last [(63505641600, 63505727999), (63505728000, 63505814399)])
       = (63505814400 :: int) - 1
   \<and> day_segments 63505641600 63505814400
       = Inr [(63505641600, 63505727999), (63505728000, 63505814399)]"
  using C8_segments_contiguous [OF segments_two_days] segments_two_days by simp

theorem C8_window_end_counterexample:
  "strptime ''20130601 00:00:00'' = Inr 63505641600
   \<and> strptime ''20130603 00:00:00'' = Inr 63505814400
   \<and> day_segments 63505641600 63505814400
       = Inr [(63505641600, 63505727999), (63505728000, 63505814399)]
   \<and> \<not> (\<exists>seg \<in> set [(63505641600 :: int, 63505727999 :: int), (63505728000, 63505814399)].
            fst seg \<le> 63505814400 \<and> 63505814400 \<le> snd seg)"
  using strptime_20130601 strptime_20130603 segments_two_days by simp

text \<open>
  C9. For every record of every file written, giving the six columns of its row of
  \<open>time_components\<close> (year, month, day, hour, minute, second) to the \<open>datetime\<close>
  constructor gives exactly the instant that was sampled: the rows of a file, read back,
  are the instants of its segment at the sampling frequency.
\<close>

theorem C9_time_components_round_trip:
  assumes "(path, ds) \<in> set (files_written (make_ObsPack_Input_netcdfs float32 sitename lat
              lon alt datestart dateend samplefreq sample_stragety outpath))"
  shows "\<exists>start endd segs seg_start seg_end dts.
       strptime datestart = Inr start \<and> strptime dateend = Inr endd
     \<and> day_segments start endd = Inr segs \<and> (seg_start, seg_end) \<in> set segs
     \<and> date_range seg_start seg_end samplefreq = Inr dts
     \<and> map reconstruct (time_components ds) = map Some dts"
proof -
  from written_instants [OF assms] obtain start endd segs s e dts where
    link: "strptime datestart = Inr start" "strptime dateend = Inr endd"
      "day_segments start endd = Inr segs" "(s, e) \<in> set segs"
      "date_range s e samplefreq = Inr dts"
    and se: "s \<le> e" "0 \<le> s"
    and rows: "time_components ds = map time_row dts"
    by blast
  from segment_bounds(3) [OF link(3,4)] strptime_upper [OF link(2)]
  have e: "e < 315537897600" by simp
  have "reconstruct (time_row t) = Some t" if "t \<in> set dts" for t
  proof -
    from sampled_instant_range [OF se(1) link(5) that] have "s \<le> t" "t \<le> e" .
    with se(2) e have "0 \<le> t" "t < 315537897600" by simp_all
    then show ?thesis by (rule reconstruct_time_row)
  qed
  then have "map (\<lambda>t. reconstruct (time_row t)) dts = map Some dts"
    by (intro map_cong [OF refl]) simp
  then have "map reconstruct (time_components ds) = map Some dts"
    unfolding rows by (simp add: comp_def)
  with link show ?thesis by blast
qed

theorem C9_round_trip_witness:
  "map reconstruct (time_components (snd (hd (files_written (make_ObsPack_Input_netcdfs
       id ''SOAS-Ground'' (32.903281 :: real) (- 87.249942) 125 ''20130601 00:00:00''
       ''20130602 00:00:00'' 3600 2 ''out/'')))))
     = map Some (map (\<lambda>i. 63505641600 + int i * 3600) [0..<24])
   \<and> time_components (snd (hd (files_written (make_ObsPack_Input_netcdfs
       id ''SOAS-Ground'' (32.903281 :: real) (- 87.249942) 125 ''20130601 00:00:00''
       ''20130602 00:00:00'' 3600 2 ''out/'')))) ! 23 = [2013, 6, 1, 23, 0, 0]
   \<and> reconstruct [2013, 6, 1, 23, 0, 0] = Some (63505641600 + 23 * 3600)"
proof -
  from C9_time_components_round_trip [OF hd_written [OF soas_written],
      of id "32.903281 :: real" "- 87.249942" 125 2 "''out/''"]
  have rt: "map reconstruct (time_components (snd (hd (files_written
       (make_ObsPack_Input_netcdfs id ''SOAS-Ground'' (32.903281 :: real) (- 87.249942) 125
          ''20130601 00:00:00'' ''20130602 00:00:00'' 3600 2 ''out/'')))))
     = map Some (map (\<lambda>i. 63505641600 + int i * 3600) [0..<24])"
    by (auto simp: strptime_20130601 strptime_20130602 segments_one_day hourly_instants)
  have row: "time_components (snd (hd (files_written (make_ObsPack_Input_netcdfs
       id ''SOAS-Ground'' (32.903281 :: real) (- 87.249942) 125 ''20130601 00:00:00''
       ''20130602 00:00:00'' 3600 2 ''out/'')))) ! 23 = [2013, 6, 1, 23, 0, 0]"
    unfolding soas_example files_written_def by simp
  have "map reconstruct (time_components (snd (hd (files_written
       (make_ObsPack_Input_netcdfs id ''SOAS-Ground'' (32.903281 :: real) (- 87.249942) 125
          ''20130601 00:00:00'' ''20130602 00:00:00'' 3600 2 ''out/''))))) ! 23
     = Some (63505641600 + 23 * 3600)"
    unfolding rt by simp
  moreover have "23 < length (time_components (snd (hd (files_written
       (make_ObsPack_Input_netcdfs id ''SOAS-Ground'' (32.903281 :: real) (- 87.249942) 125
          ''20130601 00:00:00'' ''20130602 00:00:00'' 3600 2 ''out/'')))))"
    unfolding soas_example files_written_def by simp
  ultimately have "reconstruct [2013, 6, 1, 23, 0, 0] = Some (63505641600 + 23 * 3600)"
    unfolding row [symmetric] by simp
  with rt row show ?thesis by simp
qed

text \<open>
  C10. In every file written, the six variables are parallel along \<open>obs\<close>: the latitude,
  longitude, altitude and CT_sampling_strategy arrays, the rows of time_components and
  the rows of obspack_id all have the same length, the number of instants sampled in the
  file's segment.
\<close>

theorem C10_variables_parallel:
  assumes "(path, ds) \<in> set (files_written (make_ObsPack_Input_netcdfs float32 sitename lat
              lon alt datestart dateend samplefreq sample_stragety outpath))"
  shows "\<exists>start endd segs seg_start seg_end dts.
       strptime datestart = Inr start \<and> strptime dateend = Inr endd
     \<and> day_segments start endd = Inr segs \<and> (seg_start, seg_end) \<in> set segs
     \<and> date_range seg_start seg_end samplefreq = Inr dts
     \<and> length (latitude ds) = length dts
     \<and> length (longitude ds) = length dts
     \<and> length (altitude ds) = length dts
     \<and> length (CT_sampling_strategy ds) = length dts
     \<and> length (time_components ds) = length dts
     \<and> length (obspack_id ds) = length dts"
proof -
  from written_instants [OF assms] obtain start endd segs s e dts where
    link: "strptime datestart = Inr start" "strptime dateend = Inr endd"
      "day_segments start endd = Inr segs" "(s, e) \<in> set segs"
      "date_range s e samplefreq = Inr dts"
    and vars: "latitude ds = replicate (length dts) (float32 lat)"
      "longitude ds = replicate (length dts) (float32 lon)"
      "altitude ds = replicate (length dts) (float32 lon)"
      "time_components ds = map time_row dts"
      "obspack_id ds = map (\<lambda>i. ljust 200 CHR ''_''
           (id_prefix sitename datestart dateend @ str_nat i)) [0..<length dts]"
      "CT_sampling_strategy ds = replicate (length dts) sample_stragety"
    by blast
  from vars have "length (latitude ds) = length dts" "length (longitude ds) = length dts"
    "length (altitude ds) = length dts" "length (CT_sampling_strategy ds) = length dts"
    "length (time_components ds) = length dts" "length (obspack_id ds) = length dts"
    by simp_all
  with link show ?thesis by blast
qed

theorem C10_variables_witness:
  "\<exists>start endd segs seg_start seg_end dts.
       strptime ''20130601 00:00:00'' = Inr start \<and> strptime ''20130602 00:00:00'' = Inr endd
     \<and> day_segments start endd = Inr segs \<and> (seg_start, seg_end) \<in> set segs
     \<and> date_range seg_start seg_end 3600 = Inr dts
     \<and> length (latitude (snd (hd (files_written (make_ObsPack_Input_netcdfs
           id ''SOAS-Ground'' (32.903281 :: real) (- 87.249942) 125 ''20130601 00:00:00''
           ''20130602 00:00:00'' 3600 2 ''out/''))))) = length dts
     \<and> length (longitude (snd (hd (files_written (make_ObsPack_Input_netcdfs
           id ''SOAS-Ground'' (32.903281 :: real) (- 87.249942) 125 ''20130601 00:00:00''
           ''20130602 00:00:00'' 3600 2 ''out/''))))) = length dts
     \<and> length (altitude (snd (hd (files_written (make_ObsPack_Input_netcdfs
           id ''SOAS-Ground'' (32.903281 :: real) (- 87.249942) 125 ''20130601 00:00:00''
           ''20130602 00:00:00'' 3600 2 ''out/''))))) = length dts
     \<and> length (CT_sampling_strategy (snd (hd (files_written (make_ObsPack_Input_netcdfs
           id ''SOAS-Ground'' (32.903281 :: real) (- 87.249942) 125 ''20130601 00:00:00''
           ''20130602 00:00:00'' 3600 2 ''out/''))))) = length dts
     \<and> length (time_components (snd (hd (files_written (make_ObsPack_Input_netcdfs
           id ''SOAS-Ground'' (32.903281 :: real) (- 87.249942) 125 ''20130601 00:00:00''
           ''20130602 00:00:00'' 3600 2 ''out/''))))) = length dts
     \<and> length (obspack_id (snd (hd (files_written (make_ObsPack_Input_netcdfs
           id ''SOAS-Ground'' (32.903281 :: real) (- 87.249942) 125 ''20130601 00:00:00''
           ''20130602 00:00:00'' 3600 2 ''out/''))))) = length dts"
  by (rule C10_variables_parallel [OF hd_written [OF soas_written]])

end
